theory Spec2Isabelle
  imports Main "HOL-Library.Word"
begin

section \<open>The page graph of WebPageLinker.c\<close>

text \<open>
  \<^verbatim>\<open>struct page { char *name; struct page *next; struct link *edges; int visited; }\<close>
  and \<^verbatim>\<open>struct link { struct page *to; struct link *next; }\<close>.

  The pages hang off the global \<^verbatim>\<open>graphHead\<close> as a singly linked list to which
  pages are only ever appended, so the list of pages in \<^verbatim>\<open>next\<close> order is the store
  and the position of a page in it is its address: a \<^verbatim>\<open>struct page *\<close> is a \<open>nat\<close>
  index into the list. The chain of \<^verbatim>\<open>struct link\<close> cells of a page is the list of
  the addresses its links point to, in chain order. The field \<^verbatim>\<open>visited\<close> only ever
  holds 0 or 1 and is a \<open>bool\<close>.
\<close>

record page =
  name :: string
  edges :: "nat list"
  visited :: bool

type_synonym graph = "page list"

text \<open>
  A C \<^verbatim>\<open>int\<close>: 32 bits, two's complement. A signed addition that overflows is taken
  to wrap, as it does on the usual targets (ISO C leaves it undefined).
\<close>

type_synonym cint = "32 word"

text \<open>
  One constructor for each \<^verbatim>\<open>fprintf(stderr, ...)\<close> of the program that the model
  can reach (allocation is taken to succeed, so "Ran Out Of Memory." never shows):
  \<^item> \<open>DuplicatePage\<close>: "There is already a Page with that name." (addPageToGraph)
  \<^item> \<open>LinkNotFound\<close>: "Could not Find the link." (addLinkToPage)
  \<^item> \<open>InvalidInput\<close>: "Invalid Input." (main, first word is no command)
  \<^item> \<open>NoArguments\<close>: "No Arguments were given in @addLinks" (main)
  \<^item> \<open>ArgCount\<close>: "Either too many or too few arguments given." (main, @isConnected)
  \<^item> \<open>PageMissing\<close>: "Either Page does not Exist." (main, @isConnected)
\<close>

datatype diagnostic =
  DuplicatePage | LinkNotFound | InvalidInput | NoArguments | ArgCount | PageMissing

text \<open>
  The global state the functions share: the store, the lines written to standard output
  (each without its newline) and the diagnostics written to standard error.
\<close>

record world =
  graphHead :: graph
  stdout :: "string list"
  stderr :: "diagnostic list"

subsection \<open>addPageToGraph, addLinkToPage\<close>

text \<open>
  \<^verbatim>\<open>addPageToGraph\<close>: an empty store takes the node as its head; otherwise the walk
  returns 1 at the first page of the same name, and links the node behind the last page
  when there is none.
\<close>

definition addPageToGraph :: "page \<Rightarrow> world \<Rightarrow> cint \<times> world" where
  "addPageToGraph node w =
     (if graphHead w = [] then (0, w\<lparr>graphHead := [node]\<rparr>)
      else if list_ex (\<lambda>cur. name node = name cur) (graphHead w)
      then (1, w\<lparr>stderr := stderr w @ [DuplicatePage]\<rparr>)
      else (0, w\<lparr>graphHead := graphHead w @ [node]\<rparr>))"

text \<open>
  The search loop of \<^verbatim>\<open>addLinkToPage\<close> runs over the whole list without a break, so
  \<^verbatim>\<open>src\<close> and \<^verbatim>\<open>linkNode\<close> end at the last page of the name; \<open>None\<close> stands for
  \<^verbatim>\<open>srcSeen == 0\<close> (\<^verbatim>\<open>linkSeen == 0\<close>). The argument \<open>i\<close> is the address of \<open>cur\<close>.
\<close>

fun scanPages :: "string \<Rightarrow> string \<Rightarrow> graph \<Rightarrow> nat \<Rightarrow> nat option \<times> nat option
    \<Rightarrow> nat option \<times> nat option" where
  "scanPages srcPage link [] i seen = seen"
| "scanPages srcPage link (cur # rest) i (src, linkNode) =
     scanPages srcPage link rest (Suc i)
       (if srcPage = name cur then Some i else src,
        if link = name cur then Some i else linkNode)"

text \<open>
  The new link cell is put at the end of the chain of \<^verbatim>\<open>src->edges\<close> (as its head
  when the chain is empty).
\<close>

definition addLinkToPage :: "string \<Rightarrow> string \<Rightarrow> world \<Rightarrow> cint \<times> world" where
  "addLinkToPage srcPage link w =
     (case scanPages srcPage link (graphHead w) 0 (None, None) of
        (Some src, Some linkNode) \<Rightarrow>
          (0, w\<lparr>graphHead := (graphHead w)
                 [src := (graphHead w ! src)\<lparr>edges := edges (graphHead w ! src) @ [linkNode]\<rparr>]\<rparr>)
      | _ \<Rightarrow> (1, w\<lparr>stderr := stderr w @ [LinkNotFound]\<rparr>))"

subsection \<open>findNode, findPage\<close>

text \<open>\<^verbatim>\<open>findNode\<close>: the address of the first page of the name, \<open>None\<close> for NULL.\<close>

fun findNode :: "string \<Rightarrow> graph \<Rightarrow> nat option" where
  "findNode nm [] = None"
| "findNode nm (cur # rest) =
     (if name cur = nm then Some 0 else map_option Suc (findNode nm rest))"

text \<open>\<^verbatim>\<open>findPage\<close>: 0 when a page of the name is in the store, 1 when not.\<close>

fun findPage :: "string \<Rightarrow> graph \<Rightarrow> cint" where
  "findPage pageName [] = 1"
| "findPage pageName (cur # rest) =
     (if name cur = pageName then 0 else findPage pageName rest)"

subsection \<open>dfs, resetVisits, printConnection\<close>

text \<open>
  \<^verbatim>\<open>dfs\<close> with the store passed through it: the result is the returned flag and the
  store with the marks the search left. \<open>dfs_links\<close> is the loop over the link chain,
  which hands the store each call leaves to the next. A pointer that is no page of the
  store cannot be followed: \<open>None\<close>.
\<close>

function dfs :: "nat \<Rightarrow> nat \<Rightarrow> graph \<Rightarrow> (bool \<times> graph) option"
  and dfs_links :: "nat list \<Rightarrow> nat \<Rightarrow> graph \<Rightarrow> (bool \<times> graph) option"
where
  "dfs fromPage toPage g =
     (if fromPage < length g \<and> toPage < length g then
        if name (g ! fromPage) = name (g ! toPage) then Some (True, g)
        else if visited (g ! fromPage) then Some (False, g)
        else dfs_links (edges (g ! fromPage)) toPage
               (g[fromPage := (g ! fromPage)\<lparr>visited := True\<rparr>])
      else None)"
| "dfs_links [] toPage g = Some (False, g)"
| "dfs_links (curLink # rest) toPage g =
     (case dfs curLink toPage g of
        None \<Rightarrow> None
      | Some (r, g') \<Rightarrow> if r then Some (True, g') else dfs_links rest toPage g')"
  by pat_completeness auto

text \<open>The number of pages not yet marked: what every descent of the search uses up.\<close>

definition unvisited :: "graph \<Rightarrow> nat" where
  "unvisited g = length (filter (\<lambda>p. \<not> visited p) g)"

lemma unvisited_mark:
  "i < length g \<Longrightarrow> \<not> visited (g ! i) \<Longrightarrow>
   Suc (unvisited (g[i := (g ! i)\<lparr>visited := True\<rparr>])) = unvisited g"
proof (induction g arbitrary: i)
  case Nil
  then show ?case by simp
next
  case (Cons p ps)
  then show ?case by (cases i) (auto simp: unvisited_def)
qed

text \<open>Where the search returns, it has not taken a mark away.\<close>

lemma dfs_unvisited_partial:
  "dfs_dfs_links_dom (Inl (a, t, g)) \<Longrightarrow> dfs a t g = Some (r, g')
     \<Longrightarrow> unvisited g' \<le> unvisited g"
  "dfs_dfs_links_dom (Inr (ls, t, g)) \<Longrightarrow> dfs_links ls t g = Some (r, g')
     \<Longrightarrow> unvisited g' \<le> unvisited g"
proof (induction a t g and ls t g arbitrary: r g' and r g' rule: dfs_dfs_links.pinduct)
  case (1 fromPage toPage g)
  show ?case
  proof (cases "fromPage < length g \<and> toPage < length g
      \<and> name (g ! fromPage) \<noteq> name (g ! toPage) \<and> \<not> visited (g ! fromPage)")
    case True
    with 1 have "unvisited g' \<le> unvisited (g[fromPage := (g ! fromPage)\<lparr>visited := True\<rparr>])"
      by (simp add: dfs.psimps)
    with True unvisited_mark[of fromPage g] show ?thesis by simp
  next
    case False
    with 1(1,3) show ?thesis by (auto simp: dfs.psimps split: if_splits)
  qed
next
  case (2 toPage g)
  then show ?case by (simp add: dfs_links.psimps)
next
  case (3 curLink rest toPage g)
  from 3(1,4) obtain r1 g1 where d: "dfs curLink toPage g = Some (r1, g1)"
    by (auto simp: dfs_links.psimps split: option.splits)
  from 3(2)[OF d] have le1: "unvisited g1 \<le> unvisited g" .
  show ?case
  proof (cases r1)
    case True
    with 3(1,4) d le1 show ?thesis by (simp add: dfs_links.psimps)
  next
    case False
    with 3(1,4) d have "dfs_links rest toPage g1 = Some (r, g')"
      by (simp add: dfs_links.psimps)
    from 3(3)[OF d refl _ this] False le1 show ?thesis by simp
  qed
qed

text \<open>
  The search terminates on every store: a descent marks a page that was not marked, and
  the loop over a chain shortens the chain without taking marks away.
\<close>

termination dfs
proof (relation "inv_image (less_than <*lex*> less_than)
        (\<lambda>x. case x of Inl (a, t, g) \<Rightarrow> (unvisited g, 0)
                      | Inr (ls, t, g) \<Rightarrow> (unvisited g, Suc (length ls)))", goal_cases)
  case 1
  then show ?case by (intro wf_inv_image wf_lex_prod wf_less_than)
next
  case (2 fromPage toPage g)
  then show ?case using unvisited_mark[of fromPage g] by auto
next
  case (3 curLink rest toPage g)
  then show ?case by simp
next
  case (4 curLink rest toPage g x2 x y)
  then show ?case using dfs_unvisited_partial(1)[of curLink toPage g x y] by auto
qed

declare dfs.simps [simp del]

definition resetVisits :: "graph \<Rightarrow> graph" where
  "resetVisits g = map (\<lambda>cur. cur\<lparr>visited := False\<rparr>) g"

text \<open>
  \<^verbatim>\<open>printConnection\<close> prints the flag as \<^verbatim>\<open>%d\<close> and resets the marks. It follows
  the two pointers \<^verbatim>\<open>findNode\<close> returns without a test: \<open>None\<close> where one is NULL.
\<close>

definition printConnection :: "string \<Rightarrow> string \<Rightarrow> world \<Rightarrow> world option" where
  "printConnection pageOne pageTwo w =
     (case (findNode pageOne (graphHead w), findNode pageTwo (graphHead w)) of
        (Some nodeOne, Some nodeTwo) \<Rightarrow>
          (case dfs nodeOne nodeTwo (graphHead w) of
             None \<Rightarrow> None
           | Some (r, g') \<Rightarrow>
               Some (w\<lparr>stdout := stdout w @ [if r then ''1'' else ''0''],
                       graphHead := resetVisits g'\<rparr>))
      | _ \<Rightarrow> None)"

subsection \<open>The words of a line\<close>

text \<open>
  \<^verbatim>\<open>isspace\<close> in the C locale: space, and the characters from tab to carriage return.
\<close>

definition isspace :: "char \<Rightarrow> bool" where
  "isspace c = (c \<in> set [CHR 0x20, CHR 0x09, CHR 0x0A, CHR 0x0B, CHR 0x0C, CHR 0x0D])"

definition removeAllWhitespace :: "string \<Rightarrow> string" where
  "removeAllWhitespace str = filter (\<lambda>c. \<not> isspace c) str"

text \<open>What the string functions see of the bytes \<^verbatim>\<open>getline\<close> read: up to the first NUL.\<close>

definition c_str :: "string \<Rightarrow> string" where
  "c_str s = takeWhile (\<lambda>c. c \<noteq> CHR 0x00) s"

text \<open>
  One call of \<^verbatim>\<open>strtok\<close> on what is left of the line: it skips the delimiters, and
  returns the word up to the next delimiter and what is left behind that delimiter;
  \<open>None\<close> is NULL, no word left.
\<close>

definition strtok :: "char list \<Rightarrow> string \<Rightarrow> (string \<times> string) option" where
  "strtok delim s =
     (let s' = dropWhile (\<lambda>c. c \<in> set delim) s in
      if s' = [] then None
      else Some (takeWhile (\<lambda>c. c \<notin> set delim) s',
                 drop 1 (dropWhile (\<lambda>c. c \<notin> set delim) s')))"

text \<open>
  What the word loop of \<^verbatim>\<open>main\<close> does to a word first: a final newline is cut, then
  \<^verbatim>\<open>removeAllWhitespace\<close> runs. (\<^verbatim>\<open>strtok\<close> returns no empty word.)
\<close>

definition cleanWord :: "string \<Rightarrow> string" where
  "cleanWord word =
     removeAllWhitespace (if word \<noteq> [] \<and> last word = CHR 0x0A then butlast word else word)"

lemma strtok_shorter: "strtok delim s = Some (word, s') \<Longrightarrow> length s' < length s"
proof -
  assume a: "strtok delim s = Some (word, s')"
  define t where "t = dropWhile (\<lambda>c. c \<in> set delim) s"
  from a have ne: "t \<noteq> []" and s': "s' = drop 1 (dropWhile (\<lambda>c. c \<notin> set delim) t)"
    by (auto simp: strtok_def t_def Let_def split: if_splits)
  from ne obtain c cs where t: "t = c # cs" by (cases t) auto
  from ne have "hd t \<notin> set delim" unfolding t_def by (rule hd_dropWhile)
  with t have "dropWhile (\<lambda>c. c \<notin> set delim) t = dropWhile (\<lambda>c. c \<notin> set delim) cs"
    by simp
  moreover have "length (dropWhile (\<lambda>c. c \<notin> set delim) cs) \<le> length cs"
    by (rule length_dropWhile_le)
  moreover have "length t \<le> length s" unfolding t_def by (rule length_dropWhile_le)
  ultimately show ?thesis using s' t by simp
qed

text \<open>
  The words behind the first one, which the loop takes with \<^verbatim>\<open>strtok(NULL, " ")\<close>,
  cleans and stores in \<^verbatim>\<open>pageLinks\<close>.
\<close>

function restWords :: "string \<Rightarrow> string list" where
  "restWords s =
     (case strtok [CHR 0x20] s of
        None \<Rightarrow> []
      | Some (word, s') \<Rightarrow> cleanWord word # restWords s')"
  by pat_completeness auto
termination restWords
  by (relation "measure length") (auto dest: strtok_shorter)

declare restWords.simps [simp del]


text \<open>
  The word loop of \<^verbatim>\<open>main\<close> on one line: the first word, taken with the delimiters
  space, tab and newline and cleaned, and \<^verbatim>\<open>pageLinks\<close>; \<open>None\<close> when the line has no
  word. \<^verbatim>\<open>pageLinks\<close> is allocated with one cell for each byte of the line, all NULL,
  so that \<^verbatim>\<open>pageLinks[i] != 0\<close> is \<open>i < length pageLinks\<close>.
\<close>

definition parseLine :: "string \<Rightarrow> (string \<times> string list) option" where
  "parseLine line =
     (case strtok [CHR 0x20, CHR 0x09, CHR 0x0A] (c_str line) of
        None \<Rightarrow> None
      | Some (word, s') \<Rightarrow> Some (cleanWord word, restWords s'))"

subsection \<open>main\<close>

text \<open>The loop of \<^verbatim>\<open>@addPages\<close> over \<^verbatim>\<open>pageLinks\<close>, from index 0.\<close>

fun addPages_loop :: "string list \<Rightarrow> cint \<times> world \<Rightarrow> cint \<times> world" where
  "addPages_loop [] (errSeen, w) = (errSeen, w)"
| "addPages_loop (pageWord # rest) (errSeen, w) =
     (case addPageToGraph \<lparr>name = pageWord, edges = [], visited = False\<rparr> w of
        (rc, w') \<Rightarrow> addPages_loop rest (errSeen + rc, w'))"

text \<open>The loop of \<^verbatim>\<open>@addLinks\<close> over \<^verbatim>\<open>pageLinks\<close>, from index 1.\<close>

fun addLinks_loop :: "string \<Rightarrow> string list \<Rightarrow> cint \<times> world \<Rightarrow> cint \<times> world" where
  "addLinks_loop srcPage [] (errSeen, w) = (errSeen, w)"
| "addLinks_loop srcPage (link # rest) (errSeen, w) =
     (case addLinkToPage srcPage link w of
        (rc, w') \<Rightarrow> addLinks_loop srcPage rest (errSeen + rc, w'))"

text \<open>
  The body of the \<^verbatim>\<open>getline\<close> loop on one line, on the local \<^verbatim>\<open>errSeen\<close> and the
  global state. A first word that is none of the three commands sets \<^verbatim>\<open>errSeen\<close> to 1
  and leaves the word loop with no action.
\<close>

definition runLine :: "string \<Rightarrow> cint \<times> world \<Rightarrow> (cint \<times> world) option" where
  "runLine line st =
     (case st of (errSeen, w) \<Rightarrow>
        (case parseLine line of
           None \<Rightarrow> Some (errSeen, w)
         | Some (action, pageLinks) \<Rightarrow>
             if action = ''@addPages'' then Some (addPages_loop pageLinks (errSeen, w))
             else if action = ''@addLinks'' then
               (if 0 < length pageLinks \<and> 1 < length pageLinks
                then Some (addLinks_loop (pageLinks ! 0) (drop 1 pageLinks) (errSeen, w))
                else if length pageLinks = 0
                then Some (1, w\<lparr>stderr := stderr w @ [NoArguments]\<rparr>)
                else Some (errSeen, w))
             else if action = ''@isConnected'' then
               (if length pageLinks < 1 \<or> length pageLinks < 2 \<or> 2 < length pageLinks
                then Some (errSeen + 1, w\<lparr>stderr := stderr w @ [ArgCount]\<rparr>)
                else if findPage (pageLinks ! 0) (graphHead w) \<noteq> 0
                      \<or> findPage (pageLinks ! 1) (graphHead w) \<noteq> 0
                then Some (errSeen + 1, w\<lparr>stderr := stderr w @ [PageMissing]\<rparr>)
                else map_option (Pair errSeen)
                       (printConnection (pageLinks ! 0) (pageLinks ! 1) w))
             else Some (1, w\<lparr>stderr := stderr w @ [InvalidInput]\<rparr>)))"

text \<open>The \<^verbatim>\<open>getline\<close> loop over the lines of the input, each as \<^verbatim>\<open>getline\<close> read it.\<close>

fun main_loop :: "string list \<Rightarrow> cint \<times> world \<Rightarrow> (cint \<times> world) option" where
  "main_loop [] st = Some st"
| "main_loop (line # rest) st =
     (case runLine line st of None \<Rightarrow> None | Some st' \<Rightarrow> main_loop rest st')"

text \<open>
  The state before the first line: \<^verbatim>\<open>errSeen = 0\<close> (the program was started with at
  most one argument and the input could be opened), the store empty, nothing written.
\<close>

definition initial :: "cint \<times> world" where
  "initial = (0, \<lparr>graphHead = [], stdout = [], stderr = []\<rparr>)"

text \<open>
  \<^verbatim>\<open>main\<close> on the lines of its input: the exit status \<^verbatim>\<open>errSeen >= 1\<close> (a signed
  comparison) and the final global state.
\<close>

definition main :: "string list \<Rightarrow> (cint \<times> world) option" where
  "main input =
     (case main_loop input initial of
        None \<Rightarrow> None
      | Some (errSeen, w) \<Rightarrow> Some (if 1 \<le> sint errSeen then 1 else 0, w))"

subsection \<open>Well-formed stores\<close>

text \<open>
  Every link of every page points to a page of the store (\<open>links_ok\<close>); no two
  pages have the same name and no page is marked (\<open>store_ok\<close> adds these): what
  holds between two lines of the input.
\<close>

definition links_ok :: "graph \<Rightarrow> bool" where
  "links_ok g = list_all (\<lambda>p. list_all (\<lambda>e. e < length g) (edges p)) g"

definition store_ok :: "graph \<Rightarrow> bool" where
  "store_ok g = (links_ok g \<and> distinct (map name g) \<and> list_all (\<lambda>p. \<not> visited p) g)"

text \<open>
  How \<^verbatim>\<open>errSeen\<close> follows the diagnostics while fewer than \<open>2\<^sup>3\<^sup>1\<close> of them are
  written: it is at most their number, and it is 0 exactly when there is none.
\<close>

definition err_counted :: "cint \<times> world \<Rightarrow> bool" where
  "err_counted st = (case st of (errSeen, w) \<Rightarrow>
     length (stderr w) < 2147483648 \<longrightarrow>
       unat errSeen \<le> length (stderr w) \<and> (errSeen = 0) = (stderr w = []))"

section \<open>Properties of the search\<close>

lemma links_ok_map:
  "links_ok g = list_all (list_all (\<lambda>e. e < length (map edges g))) (map edges g)"
  by (simp add: links_ok_def list_all_iff)

lemma map_mark:
  "map name (g[i := (g ! i)\<lparr>visited := b\<rparr>]) = map name g"
  "map edges (g[i := (g ! i)\<lparr>visited := b\<rparr>]) = map edges g"
proof -
  show "map name (g[i := (g ! i)\<lparr>visited := b\<rparr>]) = map name g"
    by (induction g arbitrary: i) (auto split: nat.splits)
  show "map edges (g[i := (g ! i)\<lparr>visited := b\<rparr>]) = map edges g"
    by (induction g arbitrary: i) (auto split: nat.splits)
qed

lemma dfs_frame:
  "dfs a t g = Some (r, g') \<Longrightarrow> map name g' = map name g \<and> map edges g' = map edges g"
  "dfs_links ls t g = Some (r, g') \<Longrightarrow> map name g' = map name g \<and> map edges g' = map edges g"
proof (induction a t g and ls t g arbitrary: r g' and r g' rule: dfs_dfs_links.induct)
  case (1 fromPage toPage g)
  show ?case
  proof (cases "fromPage < length g \<and> toPage < length g
      \<and> name (g ! fromPage) \<noteq> name (g ! toPage) \<and> \<not> visited (g ! fromPage)")
    case True
    with 1(2) have "dfs_links (edges (g ! fromPage)) toPage
        (g[fromPage := (g ! fromPage)\<lparr>visited := True\<rparr>]) = Some (r, g')"
      by (simp add: dfs.simps)
    with 1(1) True show ?thesis by (simp add: map_mark)
  next
    case False
    with 1(2) show ?thesis by (auto simp: dfs.simps split: if_splits)
  qed
next
  case (2 toPage g)
  then show ?case by simp
next
  case (3 curLink rest toPage g)
  from 3(3) obtain r1 g1 where d: "dfs curLink toPage g = Some (r1, g1)"
    by (auto split: option.splits)
  from 3(1)[OF d] have f1: "map name g1 = map name g \<and> map edges g1 = map edges g" .
  show ?case
  proof (cases r1)
    case True
    with 3(3) d f1 show ?thesis by simp
  next
    case False
    with 3(3) d have "dfs_links rest toPage g1 = Some (r, g')" by simp
    from 3(2)[OF d refl False this] f1 show ?thesis by simp
  qed
qed

lemma dfs_length: "dfs a t g = Some (r, g') \<Longrightarrow> length g' = length g"
  using dfs_frame(1)[of a t g r g'] by (auto dest: map_eq_imp_length_eq)

lemma dfs_defined:
  "links_ok g \<Longrightarrow> a < length g \<Longrightarrow> t < length g \<Longrightarrow> \<exists>r g'. dfs a t g = Some (r, g')"
  "links_ok g \<Longrightarrow> list_all (\<lambda>e. e < length g) ls \<Longrightarrow> t < length g
     \<Longrightarrow> \<exists>r g'. dfs_links ls t g = Some (r, g')"
proof (induction a t g and ls t g rule: dfs_dfs_links.induct)
  case (1 fromPage toPage g)
  show ?case
  proof (cases "name (g ! fromPage) \<noteq> name (g ! toPage) \<and> \<not> visited (g ! fromPage)")
    case True
    let ?g = "g[fromPage := (g ! fromPage)\<lparr>visited := True\<rparr>]"
    from 1(2) have ok: "links_ok ?g" by (simp only: links_ok_map map_mark)
    from 1(2,3) have la: "list_all (\<lambda>e. e < length ?g) (edges (g ! fromPage))"
      by (simp add: links_ok_def list_all_length)
    have "\<exists>r g'. dfs_links (edges (g ! fromPage)) toPage ?g = Some (r, g')"
      using True 1(3,4) ok la by (intro 1(1)) simp_all
    with 1(3,4) True show ?thesis by (simp add: dfs.simps)
  next
    case False
    with 1(3,4) show ?thesis by (auto simp: dfs.simps)
  qed
next
  case (2 toPage g)
  then show ?case by auto
next
  case (3 curLink rest toPage g)
  from 3(1)[OF 3(3)] 3(4,5) obtain r1 g1 where d: "dfs curLink toPage g = Some (r1, g1)"
    by auto
  from dfs_frame(1)[OF d] have e: "map edges g1 = map edges g" by simp
  from dfs_length[OF d] have l: "length g1 = length g" .
  show ?case
  proof (cases r1)
    case True
    with d show ?thesis by auto
  next
    case False
    from 3(3) e have ok1: "links_ok g1" by (simp only: links_ok_map)
    from 3(4) l have "list_all (\<lambda>e. e < length g1) rest" by simp
    moreover from 3(5) l have "toPage < length g1" by simp
    ultimately obtain r2 g2 where "dfs_links rest toPage g1 = Some (r2, g2)"
      using 3(2)[OF d refl False ok1] by blast
    with d False show ?thesis by simp
  qed
qed

lemma resetVisits_restore:
  assumes "map name g' = map name g" "map edges g' = map edges g"
    and "list_all (\<lambda>p. \<not> visited p) g"
  shows "resetVisits g' = g"
proof (rule nth_equalityI)
  from assms(1) have l: "length g' = length g" by (rule map_eq_imp_length_eq)
  then show "length (resetVisits g') = length g" by (simp add: resetVisits_def)
  fix i assume "i < length (resetVisits g')"
  then have i: "i < length g" "i < length g'" using l by (simp_all add: resetVisits_def)
  from assms(1) i have "name (g' ! i) = name (g ! i)" by (metis nth_map)
  moreover from assms(2) i have "edges (g' ! i) = edges (g ! i)" by (metis nth_map)
  moreover from assms(3) i have "\<not> visited (g ! i)" by (simp add: list_all_length)
  ultimately show "resetVisits g' ! i = g ! i" using i by (simp add: resetVisits_def)
qed

lemma findPage_findNode: "(findPage nm g = 0) = (\<exists>i. findNode nm g = Some i)"
  by (induction g) auto

lemma findNode_Some: "findNode nm g = Some i \<Longrightarrow> i < length g \<and> name (g ! i) = nm"
  by (induction g arbitrary: i) (auto split: if_splits)

section \<open>Linking pages\<close>

lemma scanPages_absent:
  "s \<notin> set (map name g) \<Longrightarrow> fst (scanPages s l g i (a, b)) = a"
  "l \<notin> set (map name g) \<Longrightarrow> snd (scanPages s l g i (a, b)) = b"
  by (induction g arbitrary: i a b) auto

lemma scanPages_src:
  "distinct (map name g) \<Longrightarrow> k < length g \<Longrightarrow> name (g ! k) = s
     \<Longrightarrow> fst (scanPages s l g i (a, b)) = Some (i + k)"
proof (induction g arbitrary: i a b k)
  case Nil
  then show ?case by simp
next
  case (Cons cur rest)
  show ?case
  proof (cases k)
    case 0
    with Cons.prems have "s \<notin> set (map name rest)" by auto
    with 0 Cons.prems show ?thesis by (simp add: scanPages_absent)
  next
    case (Suc k')
    with Cons.prems Cons.IH[of k' "Suc i"] show ?thesis by simp
  qed
qed

lemma scanPages_link:
  "distinct (map name g) \<Longrightarrow> k < length g \<Longrightarrow> name (g ! k) = l
     \<Longrightarrow> snd (scanPages s l g i (a, b)) = Some (i + k)"
proof (induction g arbitrary: i a b k)
  case Nil
  then show ?case by simp
next
  case (Cons cur rest)
  show ?case
  proof (cases k)
    case 0
    with Cons.prems have "l \<notin> set (map name rest)" by auto
    with 0 Cons.prems show ?thesis by (simp add: scanPages_absent)
  next
    case (Suc k')
    with Cons.prems Cons.IH[of k' "Suc i"] show ?thesis by simp
  qed
qed

lemma addLinkToPage_absent:
  assumes "srcPage \<notin> set (map name (graphHead w)) \<or> link \<notin> set (map name (graphHead w))"
  shows "addLinkToPage srcPage link w = (1, w\<lparr>stderr := stderr w @ [LinkNotFound]\<rparr>)"
proof -
  obtain a b where sc: "scanPages srcPage link (graphHead w) 0 (None, None) = (a, b)"
    by (cases "scanPages srcPage link (graphHead w) 0 (None, None)")
  from assms have "a = None \<or> b = None"
    using scanPages_absent(1)[of srcPage "graphHead w" link 0 None None]
      scanPages_absent(2)[of link "graphHead w" srcPage 0 None None] sc by auto
  with sc show ?thesis by (auto simp: addLinkToPage_def split: option.splits)
qed

lemma addLinkToPage_present:
  assumes "distinct (map name (graphHead w))"
    and "i < length (graphHead w)" "name (graphHead w ! i) = srcPage"
    and "j < length (graphHead w)" "name (graphHead w ! j) = link"
  shows "addLinkToPage srcPage link w =
     (0, w\<lparr>graphHead := (graphHead w)
            [i := (graphHead w ! i)\<lparr>edges := edges (graphHead w ! i) @ [j]\<rparr>]\<rparr>)"
proof -
  obtain a b where sc: "scanPages srcPage link (graphHead w) 0 (None, None) = (a, b)"
    by (cases "scanPages srcPage link (graphHead w) 0 (None, None)")
  from scanPages_src[OF assms(1,2,3), of link 0 None None] sc have "a = Some i" by simp
  moreover from scanPages_link[OF assms(1,4,5), of srcPage 0 None None] sc have "b = Some j"
    by simp
  ultimately show ?thesis using sc by (simp add: addLinkToPage_def)
qed

lemma store_ok_addLink:
  assumes "store_ok g" "i < length g" "j < length g"
  shows "store_ok (g[i := (g ! i)\<lparr>edges := edges (g ! i) @ [j]\<rparr>])"
proof -
  let ?g = "g[i := (g ! i)\<lparr>edges := edges (g ! i) @ [j]\<rparr>]"
  have n: "map name ?g = map name g"
    by (induction g arbitrary: i) (auto split: nat.splits)
  have "links_ok ?g"
    using assms unfolding store_ok_def links_ok_def list_all_length
    by (auto simp: nth_list_update nth_append less_Suc_eq)
  moreover have "list_all (\<lambda>p. \<not> visited p) ?g"
    using assms unfolding store_ok_def list_all_length by (auto simp: nth_list_update)
  ultimately show ?thesis using assms(1) n by (simp add: store_ok_def)
qed

lemma addLinkToPage_store_ok:
  assumes "store_ok (graphHead w)" "addLinkToPage srcPage link w = (rc, w')"
  shows "store_ok (graphHead w')"
proof (cases "srcPage \<in> set (map name (graphHead w)) \<and> link \<in> set (map name (graphHead w))")
  case True
  then obtain i j where ij: "i < length (graphHead w)" "name (graphHead w ! i) = srcPage"
      "j < length (graphHead w)" "name (graphHead w ! j) = link"
    by (auto simp: in_set_conv_nth)
  from assms(1) have "distinct (map name (graphHead w))" by (simp add: store_ok_def)
  from addLinkToPage_present[OF this ij] assms(2) store_ok_addLink[OF assms(1) ij(1,3)]
  show ?thesis by auto
next
  case False
  then have "srcPage \<notin> set (map name (graphHead w)) \<or> link \<notin> set (map name (graphHead w))"
    by simp
  from addLinkToPage_absent[OF this] assms show ?thesis by auto
qed

section \<open>The store between two lines\<close>

lemma addPageToGraph_present:
  assumes "name node \<in> set (map name (graphHead w))"
  shows "addPageToGraph node w = (1, w\<lparr>stderr := stderr w @ [DuplicatePage]\<rparr>)"
  using assms by (auto simp: addPageToGraph_def list_ex_iff)

lemma addPageToGraph_absent:
  assumes "name node \<notin> set (map name (graphHead w))"
  shows "addPageToGraph node w = (0, w\<lparr>graphHead := graphHead w @ [node]\<rparr>)"
  using assms by (auto simp: addPageToGraph_def list_ex_iff)

lemma store_ok_append:
  assumes "store_ok g" "nm \<notin> set (map name g)"
  shows "store_ok (g @ [\<lparr>name = nm, edges = [], visited = False\<rparr>])"
  using assms unfolding store_ok_def links_ok_def list_all_iff by (auto simp: less_Suc_eq)

lemma addPageToGraph_store_ok:
  assumes "store_ok (graphHead w)"
    and "addPageToGraph \<lparr>name = nm, edges = [], visited = False\<rparr> w = (rc, w')"
  shows "store_ok (graphHead w')"
proof (cases "nm \<in> set (map name (graphHead w))")
  case True
  with addPageToGraph_present[of "\<lparr>name = nm, edges = [], visited = False\<rparr>" w] assms
  show ?thesis by auto
next
  case False
  with addPageToGraph_absent[of "\<lparr>name = nm, edges = [], visited = False\<rparr>" w] assms
    store_ok_append[of "graphHead w" nm]
  show ?thesis by auto
qed

lemma addPages_loop_store_ok:
  "store_ok (graphHead w) \<Longrightarrow> addPages_loop ps (e, w) = (e', w') \<Longrightarrow> store_ok (graphHead w')"
proof (induction ps arbitrary: e w)
  case Nil
  then show ?case by simp
next
  case (Cons p ps)
  obtain rc w1 where a: "addPageToGraph \<lparr>name = p, edges = [], visited = False\<rparr> w = (rc, w1)"
    by (cases "addPageToGraph \<lparr>name = p, edges = [], visited = False\<rparr> w")
  from addPageToGraph_store_ok[OF Cons.prems(1) a] have "store_ok (graphHead w1)" .
  from Cons.IH[OF this, of "e + rc"] Cons.prems(2) a show ?case by simp
qed

lemma addLinks_loop_store_ok:
  "store_ok (graphHead w) \<Longrightarrow> addLinks_loop s ls (e, w) = (e', w') \<Longrightarrow> store_ok (graphHead w')"
proof (induction ls arbitrary: e w)
  case Nil
  then show ?case by simp
next
  case (Cons l ls)
  obtain rc w1 where a: "addLinkToPage s l w = (rc, w1)"
    by (cases "addLinkToPage s l w")
  from addLinkToPage_store_ok[OF Cons.prems(1) a] have "store_ok (graphHead w1)" .
  from Cons.IH[OF this, of "e + rc"] Cons.prems(2) a show ?case by simp
qed

text \<open>A query on a well-formed store writes one line and leaves everything else as it was.\<close>

lemma printConnection_store_ok:
  assumes "store_ok (graphHead w)"
    and "findPage pageOne (graphHead w) = 0" "findPage pageTwo (graphHead w) = 0"
  shows "\<exists>i j r g'. findNode pageOne (graphHead w) = Some i
      \<and> findNode pageTwo (graphHead w) = Some j
      \<and> dfs i j (graphHead w) = Some (r, g')
      \<and> printConnection pageOne pageTwo w = Some (w\<lparr>stdout := stdout w @ [if r then ''1'' else ''0'']\<rparr>)"
proof -
  let ?g = "graphHead w"
  from assms(2,3) obtain i j where f: "findNode pageOne ?g = Some i" "findNode pageTwo ?g = Some j"
    by (auto simp: findPage_findNode)
  then have b: "i < length ?g" "j < length ?g" by (auto dest: findNode_Some)
  from assms(1) have ok: "links_ok ?g" and unv: "list_all (\<lambda>p. \<not> visited p) ?g"
    by (simp_all add: store_ok_def)
  from dfs_defined(1)[OF ok b] obtain r g' where d: "dfs i j ?g = Some (r, g')" by blast
  from dfs_frame(1)[OF d] unv have "resetVisits g' = ?g" by (simp add: resetVisits_restore)
  with f d have "printConnection pageOne pageTwo w
      = Some (w\<lparr>stdout := stdout w @ [if r then ''1'' else ''0'']\<rparr>)"
    by (simp add: printConnection_def)
  with f d show ?thesis by blast
qed

lemma runLine_store_ok:
  assumes "store_ok (graphHead w)"
  shows "\<exists>e' w'. runLine line (e, w) = Some (e', w') \<and> store_ok (graphHead w')"
proof (cases "parseLine line")
  case None
  with assms show ?thesis by (simp add: runLine_def)
next
  case (Some p)
  obtain action pageLinks where p: "p = (action, pageLinks)" by (cases p)
  consider (pages) "action = ''@addPages''" | (links) "action = ''@addLinks''"
    | (conn) "action = ''@isConnected''"
    | (other) "action \<noteq> ''@addPages''" "action \<noteq> ''@addLinks''" "action \<noteq> ''@isConnected''"
    by blast
  then show ?thesis
  proof cases
    case pages
    obtain e' w' where l: "addPages_loop pageLinks (e, w) = (e', w')"
      by (cases "addPages_loop pageLinks (e, w)")
    from addPages_loop_store_ok[OF assms l] l Some p pages show ?thesis
      by (simp add: runLine_def)
  next
    case links
    obtain e' w' where l: "addLinks_loop (pageLinks ! 0) (drop 1 pageLinks) (e, w) = (e', w')"
      by (cases "addLinks_loop (pageLinks ! 0) (drop 1 pageLinks) (e, w)")
    from addLinks_loop_store_ok[OF assms l] l Some p links assms show ?thesis
      by (simp add: runLine_def)
  next
    case conn
    show ?thesis
    proof (cases "length pageLinks = 2 \<and> findPage (pageLinks ! 0) (graphHead w) = 0
        \<and> findPage (pageLinks ! 1) (graphHead w) = 0")
      case True
      from printConnection_store_ok[OF assms, of "pageLinks ! 0" "pageLinks ! 1"] True
      obtain r where "printConnection (pageLinks ! 0) (pageLinks ! 1) w
          = Some (w\<lparr>stdout := stdout w @ [if r then ''1'' else ''0'']\<rparr>)" by blast
      with True Some p conn assms show ?thesis by (simp add: runLine_def)
    next
      case False
      with Some p conn assms show ?thesis by (auto simp: runLine_def)
    qed
  next
    case other
    with Some p assms show ?thesis by (simp add: runLine_def)
  qed
qed

lemma main_loop_store_ok:
  "store_ok (graphHead w) \<Longrightarrow>
   \<exists>e' w'. main_loop input (e, w) = Some (e', w') \<and> store_ok (graphHead w')"
proof (induction input arbitrary: e w)
  case Nil
  then show ?case by simp
next
  case (Cons line rest)
  from runLine_store_ok[OF Cons.prems, of line e] obtain e1 w1
    where r: "runLine line (e, w) = Some (e1, w1)" "store_ok (graphHead w1)" by blast
  from Cons.IH[OF r(2), of e1] r(1) show ?case by simp
qed

lemma store_ok_initial: "store_ok (graphHead (snd initial))"
  by (simp add: initial_def store_ok_def links_ok_def)

lemma main_loop_initial:
  "\<exists>e w. main_loop input initial = Some (e, w) \<and> store_ok (graphHead w)"
  using main_loop_store_ok[OF store_ok_initial, of input "fst initial"] by simp

text \<open>Marks stay: a page that is marked before the search is marked behind it.\<close>

lemma dfs_marks_stay:
  "dfs a t g = Some (r, g') \<Longrightarrow> i < length g \<Longrightarrow> visited (g ! i) \<Longrightarrow> visited (g' ! i)"
  "dfs_links ls t g = Some (r, g') \<Longrightarrow> i < length g \<Longrightarrow> visited (g ! i) \<Longrightarrow> visited (g' ! i)"
proof (induction a t g and ls t g arbitrary: r g' and r g' rule: dfs_dfs_links.induct)
  case (1 fromPage toPage g)
  show ?case
  proof (cases "fromPage < length g \<and> toPage < length g
      \<and> name (g ! fromPage) \<noteq> name (g ! toPage) \<and> \<not> visited (g ! fromPage)")
    case True
    let ?g = "g[fromPage := (g ! fromPage)\<lparr>visited := True\<rparr>]"
    from True 1(2) have d: "dfs_links (edges (g ! fromPage)) toPage ?g = Some (r, g')"
      by (simp add: dfs.simps)
    from True 1(3,4) have "i < length ?g" "visited (?g ! i)"
      by (auto simp: nth_list_update)
    with 1(1)[OF _ _ _ d] True show ?thesis by simp
  next
    case False
    with 1(2,4) show ?thesis by (auto simp: dfs.simps split: if_splits)
  qed
next
  case (2 toPage g)
  then show ?case by simp
next
  case (3 curLink rest toPage g)
  from 3(3) obtain r1 g1 where d: "dfs curLink toPage g = Some (r1, g1)"
    by (auto split: option.splits)
  from 3(1)[OF d 3(4,5)] have v1: "visited (g1 ! i)" .
  from dfs_length[OF d] 3(4) have l1: "i < length g1" by simp
  show ?case
  proof (cases r1)
    case True
    with 3(3) d v1 show ?thesis by simp
  next
    case False
    with 3(3) d have "dfs_links rest toPage g1 = Some (r, g')" by simp
    from 3(2)[OF d refl False this l1 v1] show ?thesis .
  qed
qed

lemma findNode_append_absent:
  "nm \<notin> set (map name g) \<Longrightarrow>
   findNode nm (g @ h) = map_option (\<lambda>k. length g + k) (findNode nm h)"
  by (induction g) (auto simp: option.map_comp comp_def option.map_ident cong: option.map_cong)

section \<open>The exit status\<close>

lemma err_counted_frame [simp]:
  "err_counted (e, w\<lparr>graphHead := g\<rparr>) = err_counted (e, w)"
  "err_counted (e, w\<lparr>stdout := out\<rparr>) = err_counted (e, w)"
  by (simp_all add: err_counted_def)

lemma unat_succ_small: "unat (e :: cint) < 2147483647 \<Longrightarrow> unat (e + 1) = unat e + 1"
  by (simp add: unat_word_ariths unat_1)

lemma err_counted_add:
  assumes "err_counted (e, w)"
  shows "err_counted (e + 1, w\<lparr>stderr := stderr w @ [d]\<rparr>)"
proof -
  { assume b: "length (stderr w) + 1 < 2147483648"
    with assms have le: "unat e \<le> length (stderr w)" by (simp add: err_counted_def)
    with b have "unat (e + 1) = unat e + 1" by (intro unat_succ_small) simp
    with le have "unat (e + 1) \<le> length (stderr w) + 1" "e + 1 \<noteq> 0"
      by (auto simp: unat_eq_0[symmetric] simp del: unat_eq_0) }
  then show ?thesis by (simp add: err_counted_def)
qed

lemma err_counted_set:
  "err_counted (1, w\<lparr>stderr := stderr w @ [d]\<rparr>)"
  by (simp add: err_counted_def)

lemma addPageToGraph_err_counted:
  "err_counted (e, w) \<Longrightarrow> addPageToGraph node w = (rc, w') \<Longrightarrow> err_counted (e + rc, w')"
  by (auto simp: addPageToGraph_def err_counted_add split: if_splits)

lemma addLinkToPage_err_counted:
  "err_counted (e, w) \<Longrightarrow> addLinkToPage s l w = (rc, w') \<Longrightarrow> err_counted (e + rc, w')"
  by (auto simp: addLinkToPage_def err_counted_add split: prod.splits option.splits)

lemma addPages_loop_err_counted:
  "err_counted (e, w) \<Longrightarrow> err_counted (addPages_loop ps (e, w))"
proof (induction ps arbitrary: e w)
  case Nil
  then show ?case by simp
next
  case (Cons p ps)
  obtain rc w1 where a: "addPageToGraph \<lparr>name = p, edges = [], visited = False\<rparr> w = (rc, w1)"
    by (cases "addPageToGraph \<lparr>name = p, edges = [], visited = False\<rparr> w")
  from addPageToGraph_err_counted[OF Cons.prems a] Cons.IH a show ?case by simp
qed

lemma addLinks_loop_err_counted:
  "err_counted (e, w) \<Longrightarrow> err_counted (addLinks_loop s ls (e, w))"
proof (induction ls arbitrary: e w)
  case Nil
  then show ?case by simp
next
  case (Cons l ls)
  obtain rc w1 where a: "addLinkToPage s l w = (rc, w1)"
    by (cases "addLinkToPage s l w")
  from addLinkToPage_err_counted[OF Cons.prems a] Cons.IH a show ?case by simp
qed

lemma printConnection_stderr:
  "printConnection a b w = Some w' \<Longrightarrow> stderr w' = stderr w"
  by (auto simp: printConnection_def split: option.splits prod.splits)

lemma runLine_err_counted:
  assumes "err_counted (e, w)" "runLine line (e, w) = Some st'"
  shows "err_counted st'"
proof (cases "parseLine line")
  case None
  with assms show ?thesis by (simp add: runLine_def)
next
  case (Some p)
  obtain action pageLinks where p: "p = (action, pageLinks)" by (cases p)
  consider (pages) "action = ''@addPages''" | (links) "action = ''@addLinks''"
    | (conn) "action = ''@isConnected''"
    | (other) "action \<noteq> ''@addPages''" "action \<noteq> ''@addLinks''" "action \<noteq> ''@isConnected''"
    by blast
  then show ?thesis
  proof cases
    case pages
    with assms Some p addPages_loop_err_counted[OF assms(1), of pageLinks] show ?thesis
      by (simp add: runLine_def)
  next
    case links
    with assms Some p
      addLinks_loop_err_counted[OF assms(1), of "pageLinks ! 0" "drop 1 pageLinks"]
    show ?thesis
      by (auto simp: runLine_def err_counted_set split: if_splits)
  next
    case conn
    show ?thesis
    proof (cases "length pageLinks < 1 \<or> length pageLinks < 2 \<or> 2 < length pageLinks
        \<or> findPage (pageLinks ! 0) (graphHead w) \<noteq> 0
        \<or> findPage (pageLinks ! 1) (graphHead w) \<noteq> 0")
      case True
      with assms(2) Some p conn have "st' = (e + 1, w\<lparr>stderr := stderr w @ [ArgCount]\<rparr>)
          \<or> st' = (e + 1, w\<lparr>stderr := stderr w @ [PageMissing]\<rparr>)"
        by (simp add: runLine_def split: if_splits)
      with assms(1) show ?thesis by (auto simp: err_counted_add)
    next
      case False
      with assms(2) Some p conn obtain w' where
        q: "printConnection (pageLinks ! 0) (pageLinks ! 1) w = Some w'" and s: "st' = (e, w')"
        by (auto simp: runLine_def)
      from printConnection_stderr[OF q] assms(1) s show ?thesis
        by (simp add: err_counted_def)
    qed
  next
    case other
    with assms Some p show ?thesis by (auto simp: runLine_def err_counted_set)
  qed
qed

lemma main_loop_err_counted:
  "err_counted st \<Longrightarrow> main_loop input st = Some st' \<Longrightarrow> err_counted st'"
proof (induction input arbitrary: st)
  case Nil
  then show ?case by simp
next
  case (Cons line rest)
  from Cons.prems(2) obtain st1 where r: "runLine line st = Some st1" "main_loop rest st1 = Some st'"
    by (auto split: option.splits)
  obtain e w where st: "st = (e, w)" by (cases st)
  from runLine_err_counted[of e w line st1] Cons.prems(1) r(1) st have "err_counted st1" by simp
  from Cons.IH[OF this r(2)] show ?case .
qed

lemma sint_small: "uint (e :: cint) < 2147483648 \<Longrightarrow> sint e = uint e"
proof -
  assume "uint e < 2147483648"
  then have "uint e < 2 ^ 31" by simp
  moreover have "- (2 ^ 31) \<le> uint e"
    by (rule order_trans[OF _ uint_ge_0]) simp
  ultimately have "signed_take_bit 31 (uint e) = uint e"
    by (rule signed_take_bit_int_eq_self[rotated])
  then show ?thesis by (simp add: sint_uint)
qed

text \<open>
  While fewer than \<open>2\<^sup>3\<^sup>1\<close> diagnostics are written, the exit status is 1 exactly when
  a diagnostic was written; and \<^verbatim>\<open>main\<close> runs every line of every input.
\<close>

lemma exit_status_in_range:
  "\<exists>status w. main input = Some (status, w)
     \<and> (length (stderr w) < 2147483648 \<longrightarrow> status = (if stderr w = [] then 0 else 1))"
proof -
  from main_loop_initial[of input] obtain e w where m: "main_loop input initial = Some (e, w)"
    by blast
  have "err_counted initial" by (simp add: initial_def err_counted_def)
  from main_loop_err_counted[OF this m] have c: "err_counted (e, w)" .
  { assume b: "length (stderr w) < 2147483648"
    with c have le: "unat e \<le> length (stderr w)" and z: "(e = 0) = (stderr w = [])"
      by (simp_all add: err_counted_def)
    from le b have "unat e < 2147483648" by simp
    then have "int (unat e) < int 2147483648" by (simp only: of_nat_less_iff)
    then have u: "uint e < 2147483648" by simp
    have "(0::int) \<le> uint e" by simp
    moreover have "(uint e = 0) = (e = 0)" by (rule uint_0_iff)
    ultimately have "(1 \<le> uint e) = (e \<noteq> 0)" by linarith
    with z sint_small[OF u] have "(1 \<le> sint e) = (stderr w \<noteq> [])" by simp }
  with m show ?thesis by (auto simp: main_def)
qed

section \<open>The claims\<close>

text \<open>
  C2. For every page \<open>X\<close> of the store, the search from \<open>X\<close> for \<open>X\<close> returns true,
  whatever the links of \<open>X\<close> are and whether \<open>X\<close> is marked or not: the names are
  compared first, and the store the search leaves is the store it was given, so no mark
  was set. \<^verbatim>\<open>printConnection\<close> then prints 1.
\<close>

theorem same_page_reachable:
  assumes "findNode X (graphHead w) = Some n"
  shows "dfs n n (graphHead w) = Some (True, graphHead w)
     \<and> printConnection X X w
         = Some (w\<lparr>stdout := stdout w @ [''1''], graphHead := resetVisits (graphHead w)\<rparr>)"
proof -
  from assms have "n < length (graphHead w)" by (auto dest: findNode_Some)
  then have "dfs n n (graphHead w) = Some (True, graphHead w)" by (simp add: dfs.simps)
  with assms show ?thesis by (simp add: printConnection_def)
qed

text \<open>
  C2 at a store with the one page \<open>X\<close>, which has no link: once not marked, and once
  marked already.
\<close>

theorem same_page_reachable_witness:
  "findNode ''X'' [\<lparr>name = ''X'', edges = [], visited = False\<rparr>] = Some 0
   \<and> dfs 0 0 [\<lparr>name = ''X'', edges = [], visited = False\<rparr>]
       = Some (True, [\<lparr>name = ''X'', edges = [], visited = False\<rparr>])
   \<and> printConnection ''X'' ''X''
         \<lparr>graphHead = [\<lparr>name = ''X'', edges = [], visited = False\<rparr>], stdout = [], stderr = []\<rparr>
       = Some \<lparr>graphHead = [\<lparr>name = ''X'', edges = [], visited = False\<rparr>],
           stdout = [''1''], stderr = []\<rparr>
   \<and> findNode ''X'' [\<lparr>name = ''X'', edges = [], visited = True\<rparr>] = Some 0
   \<and> dfs 0 0 [\<lparr>name = ''X'', edges = [], visited = True\<rparr>]
       = Some (True, [\<lparr>name = ''X'', edges = [], visited = True\<rparr>])"
proof -
  let ?w = "\<lparr>graphHead = [\<lparr>name = ''X'', edges = [], visited = False\<rparr>],
       stdout = [], stderr = []\<rparr>"
  let ?v = "\<lparr>graphHead = [\<lparr>name = ''X'', edges = [], visited = True\<rparr>],
       stdout = [], stderr = []\<rparr>"
  have h: "findNode ''X'' (graphHead ?w) = Some 0" by simp
  have k: "findNode ''X'' (graphHead ?v) = Some 0" by simp
  from same_page_reachable[OF h] same_page_reachable[OF k] h k show ?thesis
    by (simp add: resetVisits_def)
qed

text \<open>
  C6. \<^verbatim>\<open>addLinkToPage\<close> returns 1, reports that the link was not found and leaves the
  store as it is when the source name or the destination name is no page of the store.
  When both are pages (of a store with unique names), it returns 0 and puts the link to
  the destination at the end of the links of the source, whatever links the source has
  already: a link it has already is added again, and the source may be the destination.
\<close>

theorem add_link_outcomes:
  "(srcPage \<notin> set (map name (graphHead w)) \<or> link \<notin> set (map name (graphHead w))
      \<longrightarrow> addLinkToPage srcPage link w = (1, w\<lparr>stderr := stderr w @ [LinkNotFound]\<rparr>))
   \<and> (distinct (map name (graphHead w))
        \<and> i < length (graphHead w) \<and> name (graphHead w ! i) = srcPage
        \<and> j < length (graphHead w) \<and> name (graphHead w ! j) = link
      \<longrightarrow> addLinkToPage srcPage link w =
            (0, w\<lparr>graphHead := (graphHead w)
                   [i := (graphHead w ! i)\<lparr>edges := edges (graphHead w ! i) @ [j]\<rparr>]\<rparr>))"
  using addLinkToPage_absent[of srcPage w link] addLinkToPage_present[of w i srcPage j link]
  by blast

text \<open>
  C6 at a store with \<open>A \<rightarrow> B\<close>: the missing page \<open>Q\<close>, the link \<open>A \<rightarrow> B\<close> a second time,
  and the self-loop \<open>B \<rightarrow> B\<close>.
\<close>

theorem add_link_outcomes_witness:
  "addLinkToPage ''A'' ''Q''
      \<lparr>graphHead = [\<lparr>name = ''A'', edges = [1], visited = False\<rparr>,
                    \<lparr>name = ''B'', edges = [], visited = False\<rparr>], stdout = [], stderr = []\<rparr>
     = (1, \<lparr>graphHead = [\<lparr>name = ''A'', edges = [1], visited = False\<rparr>,
                         \<lparr>name = ''B'', edges = [], visited = False\<rparr>],
            stdout = [], stderr = [LinkNotFound]\<rparr>)
   \<and> addLinkToPage ''A'' ''B''
      \<lparr>graphHead = [\<lparr>name = ''A'', edges = [1], visited = False\<rparr>,
                    \<lparr>name = ''B'', edges = [], visited = False\<rparr>], stdout = [], stderr = []\<rparr>
     = (0, \<lparr>graphHead = [\<lparr>name = ''A'', edges = [1, 1], visited = False\<rparr>,
                         \<lparr>name = ''B'', edges = [], visited = False\<rparr>],
            stdout = [], stderr = []\<rparr>)
   \<and> addLinkToPage ''B'' ''B''
      \<lparr>graphHead = [\<lparr>name = ''A'', edges = [1], visited = False\<rparr>,
                    \<lparr>name = ''B'', edges = [], visited = False\<rparr>], stdout = [], stderr = []\<rparr>
     = (0, \<lparr>graphHead = [\<lparr>name = ''A'', edges = [1], visited = False\<rparr>,
                         \<lparr>name = ''B'', edges = [1], visited = False\<rparr>],
            stdout = [], stderr = []\<rparr>)"
  using add_link_outcomes[of "''A''" "\<lparr>graphHead = [\<lparr>name = ''A'', edges = [1], visited = False\<rparr>,
                    \<lparr>name = ''B'', edges = [], visited = False\<rparr>], stdout = [], stderr = []\<rparr>" "''Q''" 0 0]
    add_link_outcomes[of "''A''" "\<lparr>graphHead = [\<lparr>name = ''A'', edges = [1], visited = False\<rparr>,
                    \<lparr>name = ''B'', edges = [], visited = False\<rparr>], stdout = [], stderr = []\<rparr>" "''B''" 0 1]
    add_link_outcomes[of "''B''" "\<lparr>graphHead = [\<lparr>name = ''A'', edges = [1], visited = False\<rparr>,
                    \<lparr>name = ''B'', edges = [], visited = False\<rparr>], stdout = [], stderr = []\<rparr>" "''B''" 1 1]
  by simp

text \<open>
  C7. \<^verbatim>\<open>addPageToGraph\<close> with a node whose name a page of the store has returns 1,
  reports the duplicate, and leaves the store as it is: no page is added and no page
  changes.
\<close>

theorem duplicate_page_rejected:
  assumes "name node \<in> set (map name (graphHead w))"
  shows "addPageToGraph node w = (1, w\<lparr>stderr := stderr w @ [DuplicatePage]\<rparr>)
     \<and> graphHead (snd (addPageToGraph node w)) = graphHead w"
  using addPageToGraph_present[OF assms] by simp

text \<open>C7 at a store whose page \<open>A\<close> has a link: the link is still there.\<close>

theorem duplicate_page_rejected_witness:
  "name \<lparr>name = ''A'', edges = [], visited = False\<rparr>
     \<in> set (map name (graphHead \<lparr>graphHead = [\<lparr>name = ''A'', edges = [0], visited = False\<rparr>],
          stdout = [], stderr = []\<rparr>))
   \<and> addPageToGraph \<lparr>name = ''A'', edges = [], visited = False\<rparr>
        \<lparr>graphHead = [\<lparr>name = ''A'', edges = [0], visited = False\<rparr>], stdout = [], stderr = []\<rparr>
      = (1, \<lparr>graphHead = [\<lparr>name = ''A'', edges = [0], visited = False\<rparr>], stdout = [],
            stderr = [DuplicatePage]\<rparr>)"
proof -
  have h: "name \<lparr>name = ''A'', edges = [], visited = False\<rparr>
     \<in> set (map name (graphHead \<lparr>graphHead = [\<lparr>name = ''A'', edges = [0], visited = False\<rparr>],
          stdout = [], stderr = []\<rparr>))"
    by simp
  from duplicate_page_rejected[OF h] h show ?thesis by simp
qed

text \<open>The equations that run a line given as a string.\<close>

lemmas line_defs = runLine_def parseLine_def strtok_def c_str_def cleanWord_def
  removeAllWhitespace_def isspace_def restWords.simps addPageToGraph_def addLinkToPage_def
  initial_def

text \<open>
  C1. In the state \<open>w\<close> that the lines of any input leave, no page is marked. A query
  for two pages of the store then returns, and no page is marked behind it, whatever it
  printed; the same query run again prints the same line and again leaves no page
  marked.
\<close>

theorem query_leaves_no_mark:
  assumes "main_loop input initial = Some (e, w)"
    and "findPage pageOne (graphHead w) = 0" "findPage pageTwo (graphHead w) = 0"
  shows "list_all (\<lambda>p. \<not> visited p) (graphHead w)
     \<and> (\<exists>r w' w''. printConnection pageOne pageTwo w = Some w'
          \<and> stdout w' = stdout w @ [r]
          \<and> list_all (\<lambda>p. \<not> visited p) (graphHead w')
          \<and> printConnection pageOne pageTwo w' = Some w''
          \<and> stdout w'' = stdout w' @ [r]
          \<and> list_all (\<lambda>p. \<not> visited p) (graphHead w''))"
proof -
  from main_loop_initial[of input] assms(1) have ok: "store_ok (graphHead w)" by auto
  then have unv: "list_all (\<lambda>p. \<not> visited p) (graphHead w)" by (simp add: store_ok_def)
  from printConnection_store_ok[OF ok assms(2,3)] obtain i j r g'
    where f: "findNode pageOne (graphHead w) = Some i" "findNode pageTwo (graphHead w) = Some j"
      and d: "dfs i j (graphHead w) = Some (r, g')"
      and p: "printConnection pageOne pageTwo w
          = Some (w\<lparr>stdout := stdout w @ [if r then ''1'' else ''0'']\<rparr>)"
    by blast
  let ?w' = "w\<lparr>stdout := stdout w @ [if r then ''1'' else ''0'']\<rparr>"
  have g: "graphHead ?w' = graphHead w" by simp
  from ok assms(2,3) have "store_ok (graphHead ?w')" "findPage pageOne (graphHead ?w') = 0"
      "findPage pageTwo (graphHead ?w') = 0"
    by simp_all
  from printConnection_store_ok[OF this] f d
  have p': "printConnection pageOne pageTwo ?w'
      = Some (?w'\<lparr>stdout := stdout ?w' @ [if r then ''1'' else ''0'']\<rparr>)"
    by auto
  show ?thesis
  proof (intro conjI exI)
    show "printConnection pageOne pageTwo w = Some ?w'" by (rule p)
    show "printConnection pageOne pageTwo ?w'
        = Some (?w'\<lparr>stdout := stdout ?w' @ [if r then ''1'' else ''0'']\<rparr>)" by (rule p')
  qed (use unv in simp_all)
qed

text \<open>C1 behind two lines that build \<open>A \<rightarrow> B\<close>, for the query from \<open>B\<close> to \<open>A\<close>.\<close>

theorem query_leaves_no_mark_witness:
  "main_loop [''@addPages A B\<newline>'', ''@addLinks A B\<newline>''] initial
     = Some (0, \<lparr>graphHead = [\<lparr>name = ''A'', edges = [1], visited = False\<rparr>,
                               \<lparr>name = ''B'', edges = [], visited = False\<rparr>],
                  stdout = [], stderr = []\<rparr>)
   \<and> findPage ''B'' [\<lparr>name = ''A'', edges = [1], visited = False\<rparr>,
                     \<lparr>name = ''B'', edges = [], visited = False\<rparr>] = 0
   \<and> findPage ''A'' [\<lparr>name = ''A'', edges = [1], visited = False\<rparr>,
                     \<lparr>name = ''B'', edges = [], visited = False\<rparr>] = 0
   \<and> (\<exists>r w' w''. printConnection ''B'' ''A''
            \<lparr>graphHead = [\<lparr>name = ''A'', edges = [1], visited = False\<rparr>,
                          \<lparr>name = ''B'', edges = [], visited = False\<rparr>],
             stdout = [], stderr = []\<rparr> = Some w'
          \<and> stdout w' = [r]
          \<and> list_all (\<lambda>p. \<not> visited p) (graphHead w')
          \<and> printConnection ''B'' ''A'' w' = Some w''
          \<and> stdout w'' = stdout w' @ [r]
          \<and> list_all (\<lambda>p. \<not> visited p) (graphHead w''))"
proof -
  let ?w = "\<lparr>graphHead = [\<lparr>name = ''A'', edges = [1], visited = False\<rparr>,
                          \<lparr>name = ''B'', edges = [], visited = False\<rparr>],
             stdout = [], stderr = []\<rparr>"
  have h1: "main_loop [''@addPages A B\<newline>'', ''@addLinks A B\<newline>''] initial = Some (0, ?w)"
    by (simp add: line_defs)
  have h2: "findPage ''B'' (graphHead ?w) = 0" by simp
  have h3: "findPage ''A'' (graphHead ?w) = 0" by simp
  from query_leaves_no_mark[OF h1 h2 h3]
  have c: "\<exists>r w' w''. printConnection ''B'' ''A'' ?w = Some w'
          \<and> stdout w' = [r]
          \<and> list_all (\<lambda>p. \<not> visited p) (graphHead w')
          \<and> printConnection ''B'' ''A'' w' = Some w''
          \<and> stdout w'' = stdout w' @ [r]
          \<and> list_all (\<lambda>p. \<not> visited p) (graphHead w'')"
    by simp
  from h2 h3 have "findPage ''B'' [\<lparr>name = ''A'', edges = [1], visited = False\<rparr>,
                     \<lparr>name = ''B'', edges = [], visited = False\<rparr>] = 0"
    "findPage ''A'' [\<lparr>name = ''A'', edges = [1], visited = False\<rparr>,
                     \<lparr>name = ''B'', edges = [], visited = False\<rparr>] = 0"
    by simp_all
  with h1 c show ?thesis by (intro conjI)
qed

text \<open>
  C10. A query for two pages of the store, in the state that the lines of any input
  leave, changes nothing of the store: the search itself leaves the number of pages, the
  name of every page and the links of every page as they were (only marks differ), and
  behind \<^verbatim>\<open>printConnection\<close> the store is the store from before the query, with no
  page marked.
\<close>

theorem query_frame:
  assumes "main_loop input initial = Some (e, w)"
    and "findPage pageOne (graphHead w) = 0" "findPage pageTwo (graphHead w) = 0"
  shows "\<exists>i j r g' w'. findNode pageOne (graphHead w) = Some i
      \<and> findNode pageTwo (graphHead w) = Some j
      \<and> dfs i j (graphHead w) = Some (r, g')
      \<and> length g' = length (graphHead w)
      \<and> map name g' = map name (graphHead w)
      \<and> map edges g' = map edges (graphHead w)
      \<and> printConnection pageOne pageTwo w = Some w'
      \<and> graphHead w' = graphHead w
      \<and> list_all (\<lambda>p. \<not> visited p) (graphHead w')
      \<and> stderr w' = stderr w"
proof -
  from main_loop_initial[of input] assms(1) have ok: "store_ok (graphHead w)" by auto
  then have unv: "list_all (\<lambda>p. \<not> visited p) (graphHead w)" by (simp add: store_ok_def)
  from printConnection_store_ok[OF ok assms(2,3)] obtain i j r g'
    where f: "findNode pageOne (graphHead w) = Some i" "findNode pageTwo (graphHead w) = Some j"
      and d: "dfs i j (graphHead w) = Some (r, g')"
      and p: "printConnection pageOne pageTwo w
          = Some (w\<lparr>stdout := stdout w @ [if r then ''1'' else ''0'']\<rparr>)"
    by blast
  from dfs_frame(1)[OF d] dfs_length[OF d] f d p unv show ?thesis by simp
qed

text \<open>C10 behind three lines that build the cycle \<open>A \<rightarrow> B \<rightarrow> A\<close>.\<close>

theorem query_frame_witness:
  "main_loop [''@addPages A B\<newline>'', ''@addLinks A B\<newline>'', ''@addLinks B A\<newline>''] initial
     = Some (0, \<lparr>graphHead = [\<lparr>name = ''A'', edges = [1], visited = False\<rparr>,
                               \<lparr>name = ''B'', edges = [0], visited = False\<rparr>],
                  stdout = [], stderr = []\<rparr>)
   \<and> findPage ''A'' [\<lparr>name = ''A'', edges = [1], visited = False\<rparr>,
                     \<lparr>name = ''B'', edges = [0], visited = False\<rparr>] = 0
   \<and> findPage ''B'' [\<lparr>name = ''A'', edges = [1], visited = False\<rparr>,
                     \<lparr>name = ''B'', edges = [0], visited = False\<rparr>] = 0
   \<and> (\<exists>r g' w'. dfs 0 1 [\<lparr>name = ''A'', edges = [1], visited = False\<rparr>,
                         \<lparr>name = ''B'', edges = [0], visited = False\<rparr>] = Some (r, g')
        \<and> length g' = 2 \<and> map name g' = [''A'', ''B''] \<and> map edges g' = [[1], [0]]
        \<and> printConnection ''A'' ''B''
            \<lparr>graphHead = [\<lparr>name = ''A'', edges = [1], visited = False\<rparr>,
                          \<lparr>name = ''B'', edges = [0], visited = False\<rparr>],
             stdout = [], stderr = []\<rparr> = Some w'
        \<and> graphHead w' = [\<lparr>name = ''A'', edges = [1], visited = False\<rparr>,
                           \<lparr>name = ''B'', edges = [0], visited = False\<rparr>])"
proof -
  let ?w = "\<lparr>graphHead = [\<lparr>name = ''A'', edges = [1], visited = False\<rparr>,
                          \<lparr>name = ''B'', edges = [0], visited = False\<rparr>],
             stdout = [], stderr = []\<rparr>"
  have h1: "main_loop [''@addPages A B\<newline>'', ''@addLinks A B\<newline>'', ''@addLinks B A\<newline>'']
      initial = Some (0, ?w)"
    by (simp add: line_defs)
  have h2: "findPage ''A'' (graphHead ?w) = 0" by simp
  have h3: "findPage ''B'' (graphHead ?w) = 0" by simp
  from query_frame[OF h1 h2 h3] h1 h2 h3 show ?thesis by auto
qed

text \<open>
  C3 as the spec has it fails: a line \<^verbatim>\<open>@addLinks A\<close>, with the source and no
  destination, is run without a diagnostic and without a change to \<^verbatim>\<open>errSeen\<close>, and
  the program exits with status 0.
\<close>

theorem addLinks_one_argument_counterexample:
  "parseLine ''@addLinks A\<newline>'' = Some (''@addLinks'', [''A''])
   \<and> main [''@addPages A\<newline>'', ''@addLinks A\<newline>'']
     = Some (0, \<lparr>graphHead = [\<lparr>name = ''A'', edges = [], visited = False\<rparr>],
                  stdout = [], stderr = []\<rparr>)"
  by (simp add: main_def line_defs)

text \<open>
  C3, amended. A line whose command is \<^verbatim>\<open>@addLinks\<close> and that has no argument sets
  \<^verbatim>\<open>errSeen\<close> to 1, reports that no arguments were given and leaves the store as it
  is. With exactly one argument the line changes nothing: no link is made, and
  \<^verbatim>\<open>errSeen\<close> and both streams stay as they were.
\<close>

theorem addLinks_short_line:
  assumes "parseLine line = Some (''@addLinks'', args)" and "length args \<le> 1"
  shows "runLine line (e, w)
     = Some (if args = [] then (1, w\<lparr>stderr := stderr w @ [NoArguments]\<rparr>) else (e, w))"
  using assms by (auto simp: runLine_def)

text \<open>C3, amended, at the lines \<^verbatim>\<open>@addLinks\<close> and \<^verbatim>\<open>@addLinks A\<close>.\<close>

theorem addLinks_short_line_witness:
  "parseLine ''@addLinks\<newline>'' = Some (''@addLinks'', [])
   \<and> parseLine ''@addLinks A\<newline>'' = Some (''@addLinks'', [''A''])
   \<and> runLine ''@addLinks\<newline>''
        (0, \<lparr>graphHead = [\<lparr>name = ''A'', edges = [], visited = False\<rparr>], stdout = [], stderr = []\<rparr>)
      = Some (1, \<lparr>graphHead = [\<lparr>name = ''A'', edges = [], visited = False\<rparr>], stdout = [],
                   stderr = [NoArguments]\<rparr>)
   \<and> runLine ''@addLinks A\<newline>''
        (0, \<lparr>graphHead = [\<lparr>name = ''A'', edges = [], visited = False\<rparr>], stdout = [], stderr = []\<rparr>)
      = Some (0, \<lparr>graphHead = [\<lparr>name = ''A'', edges = [], visited = False\<rparr>], stdout = [],
                   stderr = []\<rparr>)"
proof -
  have p0: "parseLine ''@addLinks\<newline>'' = Some (''@addLinks'', [])"
    by (simp add: line_defs)
  have p1: "parseLine ''@addLinks A\<newline>'' = Some (''@addLinks'', [''A''])"
    by (simp add: line_defs)
  have l0: "length ([] :: string list) \<le> 1" and l1: "length [''A''] \<le> 1" by simp_all
  from addLinks_short_line[OF p0 l0] addLinks_short_line[OF p1 l1] p0 p1
  show ?thesis by simp
qed

text \<open>
  C8. Take a line whose command is \<^verbatim>\<open>@isConnected\<close>, in the state that the lines of
  any input leave. With exactly two arguments that both name pages of the store, the
  search is run from the first page for the second, and the line writes exactly one line,
  1 or 0 as the search returned, and leaves \<^verbatim>\<open>errSeen\<close> and the diagnostics alone. With
  any other number of arguments it adds 1 to \<^verbatim>\<open>errSeen\<close> and reports the argument
  count; with two arguments of which one names no page it adds 1 to \<^verbatim>\<open>errSeen\<close> and
  reports the missing page. In both cases nothing is printed and the store is untouched.
\<close>

theorem isConnected_line:
  assumes "main_loop input initial = Some (e, w)"
    and "parseLine line = Some (''@isConnected'', args)"
  shows "(length args = 2 \<and> findPage (args ! 0) (graphHead w) = 0
          \<and> findPage (args ! 1) (graphHead w) = 0
        \<longrightarrow> (\<exists>i j r g'. findNode (args ! 0) (graphHead w) = Some i
              \<and> findNode (args ! 1) (graphHead w) = Some j
              \<and> dfs i j (graphHead w) = Some (r, g')
              \<and> runLine line (e, w)
                  = Some (e, w\<lparr>stdout := stdout w @ [if r then ''1'' else ''0'']\<rparr>)))
     \<and> (length args \<noteq> 2
        \<longrightarrow> runLine line (e, w) = Some (e + 1, w\<lparr>stderr := stderr w @ [ArgCount]\<rparr>))
     \<and> (length args = 2 \<and> (findPage (args ! 0) (graphHead w) \<noteq> 0
          \<or> findPage (args ! 1) (graphHead w) \<noteq> 0)
        \<longrightarrow> runLine line (e, w) = Some (e + 1, w\<lparr>stderr := stderr w @ [PageMissing]\<rparr>))"
proof (intro conjI impI)
  assume a: "length args = 2 \<and> findPage (args ! 0) (graphHead w) = 0
          \<and> findPage (args ! 1) (graphHead w) = 0"
  from main_loop_initial[of input] assms(1) have ok: "store_ok (graphHead w)" by auto
  from a printConnection_store_ok[OF ok, of "args ! 0" "args ! 1"] obtain i j r g'
    where f: "findNode (args ! 0) (graphHead w) = Some i"
        "findNode (args ! 1) (graphHead w) = Some j"
      and d: "dfs i j (graphHead w) = Some (r, g')"
      and p: "printConnection (args ! 0) (args ! 1) w
          = Some (w\<lparr>stdout := stdout w @ [if r then ''1'' else ''0'']\<rparr>)"
    by blast
  from a p assms(2) have "runLine line (e, w)
      = Some (e, w\<lparr>stdout := stdout w @ [if r then ''1'' else ''0'']\<rparr>)"
    by (auto simp: runLine_def)
  with f d show "\<exists>i j r g'. findNode (args ! 0) (graphHead w) = Some i
              \<and> findNode (args ! 1) (graphHead w) = Some j
              \<and> dfs i j (graphHead w) = Some (r, g')
              \<and> runLine line (e, w)
                  = Some (e, w\<lparr>stdout := stdout w @ [if r then ''1'' else ''0'']\<rparr>)"
    by blast
next
  assume "length args \<noteq> 2"
  with assms(2) show "runLine line (e, w) = Some (e + 1, w\<lparr>stderr := stderr w @ [ArgCount]\<rparr>)"
    by (auto simp: runLine_def)
next
  assume "length args = 2 \<and> (findPage (args ! 0) (graphHead w) \<noteq> 0
          \<or> findPage (args ! 1) (graphHead w) \<noteq> 0)"
  with assms(2) show "runLine line (e, w) = Some (e + 1, w\<lparr>stderr := stderr w @ [PageMissing]\<rparr>)"
    by (auto simp: runLine_def)
qed

text \<open>
  C8 behind two lines that build \<open>A \<rightarrow> B\<close>: both answers, one and three arguments, and two
  names that are no pages.
\<close>

theorem isConnected_line_witness:
  "main_loop [''@addPages A B\<newline>'', ''@addLinks A B\<newline>''] initial
     = Some (0, \<lparr>graphHead = [\<lparr>name = ''A'', edges = [1], visited = False\<rparr>,
                               \<lparr>name = ''B'', edges = [], visited = False\<rparr>],
                  stdout = [], stderr = []\<rparr>)
   \<and> parseLine ''@isConnected A B\<newline>'' = Some (''@isConnected'', [''A'', ''B''])
   \<and> parseLine ''@isConnected B A\<newline>'' = Some (''@isConnected'', [''B'', ''A''])
   \<and> parseLine ''@isConnected A\<newline>'' = Some (''@isConnected'', [''A''])
   \<and> parseLine ''@isConnected A B B\<newline>'' = Some (''@isConnected'', [''A'', ''B'', ''B''])
   \<and> parseLine ''@isConnected Q R\<newline>'' = Some (''@isConnected'', [''Q'', ''R''])
   \<and> runLine ''@isConnected A B\<newline>''
         (0, \<lparr>graphHead = [\<lparr>name = ''A'', edges = [1], visited = False\<rparr>,
                            \<lparr>name = ''B'', edges = [], visited = False\<rparr>],
               stdout = [], stderr = []\<rparr>)
       = Some (0, \<lparr>graphHead = [\<lparr>name = ''A'', edges = [1], visited = False\<rparr>,
                                 \<lparr>name = ''B'', edges = [], visited = False\<rparr>],
                    stdout = [''1''], stderr = []\<rparr>)
   \<and> runLine ''@isConnected B A\<newline>''
         (0, \<lparr>graphHead = [\<lparr>name = ''A'', edges = [1], visited = False\<rparr>,
                            \<lparr>name = ''B'', edges = [], visited = False\<rparr>],
               stdout = [], stderr = []\<rparr>)
       = Some (0, \<lparr>graphHead = [\<lparr>name = ''A'', edges = [1], visited = False\<rparr>,
                                 \<lparr>name = ''B'', edges = [], visited = False\<rparr>],
                    stdout = [''0''], stderr = []\<rparr>)
   \<and> runLine ''@isConnected A\<newline>''
         (0, \<lparr>graphHead = [\<lparr>name = ''A'', edges = [1], visited = False\<rparr>,
                            \<lparr>name = ''B'', edges = [], visited = False\<rparr>],
               stdout = [], stderr = []\<rparr>)
       = Some (1, \<lparr>graphHead = [\<lparr>name = ''A'', edges = [1], visited = False\<rparr>,
                                 \<lparr>name = ''B'', edges = [], visited = False\<rparr>],
                    stdout = [], stderr = [ArgCount]\<rparr>)
   \<and> runLine ''@isConnected A B B\<newline>''
         (0, \<lparr>graphHead = [\<lparr>name = ''A'', edges = [1], visited = False\<rparr>,
                            \<lparr>name = ''B'', edges = [], visited = False\<rparr>],
               stdout = [], stderr = []\<rparr>)
       = Some (1, \<lparr>graphHead = [\<lparr>name = ''A'', edges = [1], visited = False\<rparr>,
                                 \<lparr>name = ''B'', edges = [], visited = False\<rparr>],
                    stdout = [], stderr = [ArgCount]\<rparr>)
   \<and> runLine ''@isConnected Q R\<newline>''
         (0, \<lparr>graphHead = [\<lparr>name = ''A'', edges = [1], visited = False\<rparr>,
                            \<lparr>name = ''B'', edges = [], visited = False\<rparr>],
               stdout = [], stderr = []\<rparr>)
       = Some (1, \<lparr>graphHead = [\<lparr>name = ''A'', edges = [1], visited = False\<rparr>,
                                 \<lparr>name = ''B'', edges = [], visited = False\<rparr>],
                    stdout = [], stderr = [PageMissing]\<rparr>)"
proof -
  let ?w = "\<lparr>graphHead = [\<lparr>name = ''A'', edges = [1], visited = False\<rparr>,
                          \<lparr>name = ''B'', edges = [], visited = False\<rparr>],
             stdout = [], stderr = []\<rparr>"
  have h: "main_loop [''@addPages A B\<newline>'', ''@addLinks A B\<newline>''] initial = Some (0, ?w)"
    by (simp add: line_defs)
  have p1: "parseLine ''@isConnected A B\<newline>'' = Some (''@isConnected'', [''A'', ''B''])"
    by (simp add: line_defs)
  have p2: "parseLine ''@isConnected B A\<newline>'' = Some (''@isConnected'', [''B'', ''A''])"
    by (simp add: line_defs)
  have p3: "parseLine ''@isConnected A\<newline>'' = Some (''@isConnected'', [''A''])"
    by (simp add: line_defs)
  have p4: "parseLine ''@isConnected A B B\<newline>'' = Some (''@isConnected'', [''A'', ''B'', ''B''])"
    by (simp add: line_defs)
  have p5: "parseLine ''@isConnected Q R\<newline>'' = Some (''@isConnected'', [''Q'', ''R''])"
    by (simp add: line_defs)
  have d1: "dfs 0 1 (graphHead ?w) = Some (True, [\<lparr>name = ''A'', edges = [1], visited = True\<rparr>,
                          \<lparr>name = ''B'', edges = [], visited = False\<rparr>])"
    by (simp add: dfs.simps)
  have d2: "dfs 1 0 (graphHead ?w) = Some (False, [\<lparr>name = ''A'', edges = [1], visited = False\<rparr>,
                          \<lparr>name = ''B'', edges = [], visited = True\<rparr>])"
    by (simp add: dfs.simps)
  have r1: "runLine ''@isConnected A B\<newline>'' (0, ?w) = Some (0, ?w\<lparr>stdout := [''1'']\<rparr>)"
    using isConnected_line[OF h p1] d1 by auto
  have r2: "runLine ''@isConnected B A\<newline>'' (0, ?w) = Some (0, ?w\<lparr>stdout := [''0'']\<rparr>)"
    using isConnected_line[OF h p2] d2 by auto
  have r3: "runLine ''@isConnected A\<newline>'' (0, ?w) = Some (1, ?w\<lparr>stderr := [ArgCount]\<rparr>)"
    using isConnected_line[OF h p3] by simp
  have r4: "runLine ''@isConnected A B B\<newline>'' (0, ?w) = Some (1, ?w\<lparr>stderr := [ArgCount]\<rparr>)"
    using isConnected_line[OF h p4] by simp
  have r5: "runLine ''@isConnected Q R\<newline>'' (0, ?w) = Some (1, ?w\<lparr>stderr := [PageMissing]\<rparr>)"
    using isConnected_line[OF h p5] by simp
  from r1 r2 r3 r4 r5 have
    "runLine ''@isConnected A B\<newline>'' (0, ?w) = Some (0, \<lparr>graphHead = graphHead ?w, stdout = [''1''], stderr = []\<rparr>)"
    "runLine ''@isConnected B A\<newline>'' (0, ?w) = Some (0, \<lparr>graphHead = graphHead ?w, stdout = [''0''], stderr = []\<rparr>)"
    "runLine ''@isConnected A\<newline>'' (0, ?w) = Some (1, \<lparr>graphHead = graphHead ?w, stdout = [], stderr = [ArgCount]\<rparr>)"
    "runLine ''@isConnected A B B\<newline>'' (0, ?w) = Some (1, \<lparr>graphHead = graphHead ?w, stdout = [], stderr = [ArgCount]\<rparr>)"
    "runLine ''@isConnected Q R\<newline>'' (0, ?w) = Some (1, \<lparr>graphHead = graphHead ?w, stdout = [], stderr = [PageMissing]\<rparr>)"
    by simp_all
  with h p1 p2 p3 p4 p5 show ?thesis by simp
qed

text \<open>
  C5. In the state that the lines of any input leave, let \<open>A\<close> and \<open>B\<close> be two
  different names that no page has. The loop of \<^verbatim>\<open>@addPages\<close> on \<open>A\<close>, \<open>B\<close> and then
  the loop of \<^verbatim>\<open>@addLinks\<close> from \<open>A\<close> to \<open>B\<close> leave \<^verbatim>\<open>errSeen\<close> as it was and
  put the two pages, with the one link, behind the pages of the store. The query from
  \<open>A\<close> to \<open>B\<close> then prints 1, and the query from \<open>B\<close> to \<open>A\<close> prints 0.
\<close>

theorem one_link_reachability:
  assumes "main_loop input initial = Some (e, w)" and "A \<noteq> B"
    and "A \<notin> set (map name (graphHead w))" and "B \<notin> set (map name (graphHead w))"
  shows "\<exists>w'. addLinks_loop A [B] (addPages_loop [A, B] (e, w)) = (e, w')
      \<and> graphHead w' = graphHead w @
           [\<lparr>name = A, edges = [Suc (length (graphHead w))], visited = False\<rparr>,
            \<lparr>name = B, edges = [], visited = False\<rparr>]
      \<and> printConnection A B w' = Some (w'\<lparr>stdout := stdout w' @ [''1'']\<rparr>)
      \<and> printConnection B A w' = Some (w'\<lparr>stdout := stdout w' @ [''0'']\<rparr>)"
proof -
  let ?g = "graphHead w"
  let ?n = "length ?g"
  let ?pA = "\<lparr>name = A, edges = [], visited = False\<rparr>"
  let ?pB = "\<lparr>name = B, edges = [], visited = False\<rparr>"
  let ?g1 = "?g @ [?pA, ?pB]"
  let ?g2 = "?g @ [\<lparr>name = A, edges = [Suc ?n], visited = False\<rparr>, ?pB]"
  let ?w1 = "w\<lparr>graphHead := ?g1\<rparr>"
  let ?w2 = "w\<lparr>graphHead := ?g2\<rparr>"
  from main_loop_initial[of input] assms(1) have ok: "store_ok ?g" by auto
  have a1: "addPageToGraph ?pA w = (0, w\<lparr>graphHead := ?g @ [?pA]\<rparr>)"
    using assms(3) by (simp add: addPageToGraph_absent)
  have a2: "addPageToGraph ?pB (w\<lparr>graphHead := ?g @ [?pA]\<rparr>) = (0, ?w1)"
    using assms(2,4) by (simp add: addPageToGraph_absent)
  have p: "addPages_loop [A, B] (e, w) = (e, ?w1)" by (simp add: a1 a2)
  have ok1: "store_ok ?g1"
    using addPages_loop_store_ok[OF ok p] by simp
  then have dist: "distinct (map name (graphHead ?w1))" by (simp add: store_ok_def)
  have "addLinkToPage A B ?w1 = (0, ?w1\<lparr>graphHead := (graphHead ?w1)
      [?n := (graphHead ?w1 ! ?n)\<lparr>edges := edges (graphHead ?w1 ! ?n) @ [Suc ?n]\<rparr>]\<rparr>)"
    by (rule addLinkToPage_present[OF dist]) (simp_all add: nth_append)
  then have l: "addLinkToPage A B ?w1 = (0, ?w2)" by (simp add: nth_append list_update_append)
  have pl: "addLinks_loop A [B] (addPages_loop [A, B] (e, w)) = (e, ?w2)"
    unfolding p by (simp add: l)
  have ok2: "store_ok (graphHead ?w2)"
    using addLinks_loop_store_ok[of ?w1 A "[B]" e e ?w2] ok1 l by simp
  have fA: "findNode A ?g2 = Some ?n"
    using assms(3) by (simp add: findNode_append_absent)
  have fB: "findNode B ?g2 = Some (Suc ?n)"
    using assms(2,4) by (simp add: findNode_append_absent)
  have dAB: "\<exists>g'. dfs ?n (Suc ?n) ?g2 = Some (True, g')"
    using assms(2) by (simp add: dfs.simps nth_append list_update_append)
  have dBA: "\<exists>g'. dfs (Suc ?n) ?n ?g2 = Some (False, g')"
    using assms(2) by (simp add: dfs.simps nth_append list_update_append)
  have qAB: "printConnection A B ?w2 = Some (?w2\<lparr>stdout := stdout ?w2 @ [''1'']\<rparr>)"
    using printConnection_store_ok[OF ok2, of A B] fA fB dAB
    by (auto simp: findPage_findNode)
  have qBA: "printConnection B A ?w2 = Some (?w2\<lparr>stdout := stdout ?w2 @ [''0'']\<rparr>)"
    using printConnection_store_ok[OF ok2, of B A] fA fB dBA
    by (auto simp: findPage_findNode)
  from pl qAB qBA show ?thesis by (intro exI[of _ ?w2]) simp
qed

text \<open>C5 behind a line that made the page \<open>X\<close>.\<close>

theorem one_link_reachability_witness:
  "main_loop [''@addPages X\<newline>''] initial
     = Some (0, \<lparr>graphHead = [\<lparr>name = ''X'', edges = [], visited = False\<rparr>],
                  stdout = [], stderr = []\<rparr>)
   \<and> ''A'' \<noteq> ''B''
   \<and> (\<exists>w'. addLinks_loop ''A'' [''B''] (addPages_loop [''A'', ''B'']
          (0, \<lparr>graphHead = [\<lparr>name = ''X'', edges = [], visited = False\<rparr>],
                stdout = [], stderr = []\<rparr>)) = (0, w')
        \<and> graphHead w' = [\<lparr>name = ''X'', edges = [], visited = False\<rparr>,
                           \<lparr>name = ''A'', edges = [2], visited = False\<rparr>,
                           \<lparr>name = ''B'', edges = [], visited = False\<rparr>]
        \<and> printConnection ''A'' ''B'' w' = Some (w'\<lparr>stdout := stdout w' @ [''1'']\<rparr>)
        \<and> printConnection ''B'' ''A'' w' = Some (w'\<lparr>stdout := stdout w' @ [''0'']\<rparr>))"
proof -
  let ?w = "\<lparr>graphHead = [\<lparr>name = ''X'', edges = [], visited = False\<rparr>],
                  stdout = [], stderr = []\<rparr>"
  have h1: "main_loop [''@addPages X\<newline>''] initial = Some (0, ?w)"
    by (simp add: line_defs)
  have h2: "''A'' \<noteq> ''B''" by simp
  have h3: "''A'' \<notin> set (map name (graphHead ?w))" by simp
  have h4: "''B'' \<notin> set (map name (graphHead ?w))" by simp
  from one_link_reachability[OF h1 h2 h3 h4]
  have "\<exists>w'. addLinks_loop ''A'' [''B''] (addPages_loop [''A'', ''B''] (0, ?w)) = (0, w')
        \<and> graphHead w' = [\<lparr>name = ''X'', edges = [], visited = False\<rparr>,
                           \<lparr>name = ''A'', edges = [2], visited = False\<rparr>,
                           \<lparr>name = ''B'', edges = [], visited = False\<rparr>]
        \<and> printConnection ''A'' ''B'' w' = Some (w'\<lparr>stdout := stdout w' @ [''1'']\<rparr>)
        \<and> printConnection ''B'' ''A'' w' = Some (w'\<lparr>stdout := stdout w' @ [''0'']\<rparr>)"
    by (simp del: addPages_loop.simps addLinks_loop.simps add: numeral_2_eq_2)
  with h1 h2 show ?thesis by (intro conjI)
qed

text \<open>
  A line with the command \<^verbatim>\<open>@isConnected\<close> and no argument adds 1 to \<^verbatim>\<open>errSeen\<close>;
  so do \<open>n\<close> of them, \<open>n\<close> times, in the arithmetic of \<^verbatim>\<open>int\<close>.
\<close>

lemma runLine_isConnected_bare:
  "runLine ''@isConnected\<newline>'' (e, w) = Some (e + 1, w\<lparr>stderr := stderr w @ [ArgCount]\<rparr>)"
  by (simp add: line_defs)

lemma main_loop_replicate:
  "main_loop (replicate n ''@isConnected\<newline>'') (e, w)
     = Some (e + of_nat n, w\<lparr>stderr := stderr w @ replicate n ArgCount\<rparr>)"
proof (induction n arbitrary: e w)
  case 0
  then show ?case by simp
next
  case (Suc n)
  have "main_loop (replicate (Suc n) ''@isConnected\<newline>'') (e, w)
      = main_loop (replicate n ''@isConnected\<newline>'') (e + 1, w\<lparr>stderr := stderr w @ [ArgCount]\<rparr>)"
    by (simp add: runLine_isConnected_bare)
  also have "\<dots> = Some (e + 1 + of_nat n,
      w\<lparr>stderr := stderr w @ [ArgCount]\<rparr>\<lparr>stderr := stderr (w\<lparr>stderr := stderr w @ [ArgCount]\<rparr>) @ replicate n ArgCount\<rparr>)"
    by (rule Suc.IH)
  also have "\<dots> = Some (e + of_nat (Suc n), w\<lparr>stderr := stderr w @ replicate (Suc n) ArgCount\<rparr>)"
    by (simp add: add.assoc)
  finally show ?case .
qed

text \<open>
  C9 fails on the code where \<^verbatim>\<open>errSeen\<close> overflows: every one of these \<open>2\<^sup>3\<^sup>1\<close> lines
  is an error and writes its diagnostic, \<^verbatim>\<open>errSeen\<close> wraps to the least \<^verbatim>\<open>int\<close>, the
  test \<^verbatim>\<open>errSeen >= 1\<close> fails and the exit status is 0.
\<close>

theorem exit_status_wraps:
  "main (replicate 2147483648 ''@isConnected\<newline>'')
     = Some (0, \<lparr>graphHead = [], stdout = [], stderr = replicate 2147483648 ArgCount\<rparr>)"
proof -
  have "sint (0 + of_nat 2147483648 :: cint) = - 2147483648" by simp
  then have "\<not> 1 \<le> sint (0 + of_nat 2147483648 :: cint)" by simp
  then show ?thesis
    unfolding main_def initial_def main_loop_replicate by simp
qed

text \<open>
  The store that the loops of \<^verbatim>\<open>@addPages A B C\<close>, \<^verbatim>\<open>@addLinks A B\<close> and
  \<^verbatim>\<open>@addLinks B A\<close> build from the empty one, and the two queries on it.
\<close>

lemma cycle_store:
  assumes "distinct [A, B, C]"
  shows "addLinks_loop B [A] (addLinks_loop A [B] (addPages_loop [A, B, C] initial))
     = (0, \<lparr>graphHead = [\<lparr>name = A, edges = [1], visited = False\<rparr>,
                          \<lparr>name = B, edges = [0], visited = False\<rparr>,
                          \<lparr>name = C, edges = [], visited = False\<rparr>],
             stdout = [], stderr = []\<rparr>)"
  using assms by (auto simp: initial_def addPageToGraph_def addLinkToPage_def)

lemma cycle_queries:
  assumes "distinct [A, B, C]"
    and "w = \<lparr>graphHead = [\<lparr>name = A, edges = [1], visited = False\<rparr>,
                          \<lparr>name = B, edges = [0], visited = False\<rparr>,
                          \<lparr>name = C, edges = [], visited = False\<rparr>],
             stdout = [], stderr = []\<rparr>"
  shows "printConnection A A w = Some (w\<lparr>stdout := stdout w @ [''1'']\<rparr>)"
    and "printConnection A C w = Some (w\<lparr>stdout := stdout w @ [''0'']\<rparr>)"
  using assms by (auto simp: printConnection_def dfs.simps resetVisits_def)

text \<open>
  C4. \<open>dfs\<close> is a total function: its recursion is well-founded on every store, by the
  number of pages not yet marked (a descent marks a page that was not marked) and the
  length of the link chain left. On a store whose links all point to pages, with any
  cycles and self-loops, the search from a page for a page returns a flag; the store it
  leaves has the same pages, and every page marked before is marked behind it, so no
  page is descended into twice. A query on a well-formed store for two of its pages
  returns and prints one line. With the links \<open>A \<rightarrow> B\<close> and \<open>B \<rightarrow> A\<close> and a page \<open>C\<close>
  without links, the query from \<open>A\<close> to \<open>A\<close> prints 1 and the query from \<open>A\<close> to
  \<open>C\<close> prints 0.
\<close>

theorem search_terminates:
  "(links_ok g \<and> fromPage < length g \<and> toPage < length g
      \<longrightarrow> (\<exists>r g'. dfs fromPage toPage g = Some (r, g') \<and> length g' = length g
            \<and> (\<forall>i<length g. visited (g ! i) \<longrightarrow> visited (g' ! i))))
   \<and> (store_ok (graphHead w) \<and> findPage pageOne (graphHead w) = 0
        \<and> findPage pageTwo (graphHead w) = 0
      \<longrightarrow> (\<exists>r. printConnection pageOne pageTwo w = Some (w\<lparr>stdout := stdout w @ [r]\<rparr>)))
   \<and> (distinct [A, B, C]
      \<longrightarrow> (\<exists>w'. addLinks_loop B [A] (addLinks_loop A [B] (addPages_loop [A, B, C] initial))
                 = (0, w')
            \<and> graphHead w' = [\<lparr>name = A, edges = [1], visited = False\<rparr>,
                               \<lparr>name = B, edges = [0], visited = False\<rparr>,
                               \<lparr>name = C, edges = [], visited = False\<rparr>]
            \<and> printConnection A A w' = Some (w'\<lparr>stdout := stdout w' @ [''1'']\<rparr>)
            \<and> printConnection A C w' = Some (w'\<lparr>stdout := stdout w' @ [''0'']\<rparr>)))"
proof (intro conjI impI)
  assume a: "links_ok g \<and> fromPage < length g \<and> toPage < length g"
  then obtain r g' where d: "dfs fromPage toPage g = Some (r, g')"
    using dfs_defined(1)[of g fromPage toPage] by blast
  from dfs_length[OF d] dfs_marks_stay(1)[OF d] d
  show "\<exists>r g'. dfs fromPage toPage g = Some (r, g') \<and> length g' = length g
            \<and> (\<forall>i<length g. visited (g ! i) \<longrightarrow> visited (g' ! i))"
    by blast
next
  assume "store_ok (graphHead w) \<and> findPage pageOne (graphHead w) = 0
        \<and> findPage pageTwo (graphHead w) = 0"
  then show "\<exists>r. printConnection pageOne pageTwo w = Some (w\<lparr>stdout := stdout w @ [r]\<rparr>)"
    using printConnection_store_ok[of w pageOne pageTwo] by blast
next
  assume d: "distinct [A, B, C]"
  let ?w = "\<lparr>graphHead = [\<lparr>name = A, edges = [1], visited = False\<rparr>,
                          \<lparr>name = B, edges = [0], visited = False\<rparr>,
                          \<lparr>name = C, edges = [], visited = False\<rparr>],
             stdout = [], stderr = []\<rparr>"
  from cycle_store[OF d] cycle_queries[OF d refl]
  show "\<exists>w'. addLinks_loop B [A] (addLinks_loop A [B] (addPages_loop [A, B, C] initial))
                 = (0, w')
            \<and> graphHead w' = [\<lparr>name = A, edges = [1], visited = False\<rparr>,
                               \<lparr>name = B, edges = [0], visited = False\<rparr>,
                               \<lparr>name = C, edges = [], visited = False\<rparr>]
            \<and> printConnection A A w' = Some (w'\<lparr>stdout := stdout w' @ [''1'']\<rparr>)
            \<and> printConnection A C w' = Some (w'\<lparr>stdout := stdout w' @ [''0'']\<rparr>)"
    by (intro exI[of _ ?w]) simp
qed

text \<open>
  C4 at a store with the self-loop \<open>A \<rightarrow> A\<close>, the cycle \<open>A \<rightarrow> B \<rightarrow> A\<close> and the page
  \<open>C\<close>: the search from \<open>A\<close> for \<open>C\<close> marks \<open>A\<close> and \<open>B\<close> and returns 0.
\<close>

theorem search_terminates_witness:
  "links_ok [\<lparr>name = ''A'', edges = [0, 1], visited = False\<rparr>,
             \<lparr>name = ''B'', edges = [0], visited = False\<rparr>,
             \<lparr>name = ''C'', edges = [], visited = False\<rparr>]
   \<and> (\<exists>r g'. dfs 0 2 [\<lparr>name = ''A'', edges = [0, 1], visited = False\<rparr>,
                      \<lparr>name = ''B'', edges = [0], visited = False\<rparr>,
                      \<lparr>name = ''C'', edges = [], visited = False\<rparr>] = Some (r, g')
        \<and> length g' = 3)
   \<and> dfs 0 2 [\<lparr>name = ''A'', edges = [0, 1], visited = False\<rparr>,
              \<lparr>name = ''B'', edges = [0], visited = False\<rparr>,
              \<lparr>name = ''C'', edges = [], visited = False\<rparr>]
       = Some (False, [\<lparr>name = ''A'', edges = [0, 1], visited = True\<rparr>,
                       \<lparr>name = ''B'', edges = [0], visited = True\<rparr>,
                       \<lparr>name = ''C'', edges = [], visited = False\<rparr>])
   \<and> (\<exists>r. printConnection ''A'' ''C''
          \<lparr>graphHead = [\<lparr>name = ''A'', edges = [0, 1], visited = False\<rparr>,
                        \<lparr>name = ''B'', edges = [0], visited = False\<rparr>,
                        \<lparr>name = ''C'', edges = [], visited = False\<rparr>],
           stdout = [], stderr = []\<rparr>
        = Some \<lparr>graphHead = [\<lparr>name = ''A'', edges = [0, 1], visited = False\<rparr>,
                        \<lparr>name = ''B'', edges = [0], visited = False\<rparr>,
                        \<lparr>name = ''C'', edges = [], visited = False\<rparr>],
           stdout = [r], stderr = []\<rparr>)
   \<and> distinct [''A'', ''B'', ''C'']
   \<and> (\<exists>w'. addLinks_loop ''B'' [''A''] (addLinks_loop ''A'' [''B'']
          (addPages_loop [''A'', ''B'', ''C''] initial)) = (0, w')
        \<and> printConnection ''A'' ''A'' w' = Some (w'\<lparr>stdout := stdout w' @ [''1'']\<rparr>)
        \<and> printConnection ''A'' ''C'' w' = Some (w'\<lparr>stdout := stdout w' @ [''0'']\<rparr>))"
proof -
  let ?g = "[\<lparr>name = ''A'', edges = [0, 1], visited = False\<rparr>,
             \<lparr>name = ''B'', edges = [0], visited = False\<rparr>,
             \<lparr>name = ''C'', edges = [], visited = False\<rparr>]"
  let ?w = "\<lparr>graphHead = ?g, stdout = [], stderr = []\<rparr>"
  have h1: "links_ok ?g" by (simp add: links_ok_def)
  have h2: "(0::nat) < length ?g" "(2::nat) < length ?g" by simp_all
  have h3: "store_ok (graphHead ?w)" by (simp add: store_ok_def links_ok_def)
  have h4: "findPage ''A'' (graphHead ?w) = 0" "findPage ''C'' (graphHead ?w) = 0" by simp_all
  have h5: "distinct [''A'', ''B'', ''C'']" by simp
  note t = search_terminates[of ?g 0 2 ?w "''A''" "''C''" "''A''" "''B''" "''C''"]
  from conjunct1[OF t] h1 h2 obtain r g'
    where "dfs 0 2 ?g = Some (r, g')" "length g' = length ?g" by blast
  then have c0: "\<exists>r g'. dfs 0 2 ?g = Some (r, g') \<and> length g' = 3" by simp
  have c1: "dfs 0 2 ?g = Some (False, [\<lparr>name = ''A'', edges = [0, 1], visited = True\<rparr>,
                       \<lparr>name = ''B'', edges = [0], visited = True\<rparr>,
                       \<lparr>name = ''C'', edges = [], visited = False\<rparr>])"
    by (simp add: dfs.simps)
  from t h3 h4 have c2: "\<exists>r. printConnection ''A'' ''C'' ?w
      = Some \<lparr>graphHead = ?g, stdout = [r], stderr = []\<rparr>"
    by simp
  from t h5 have c3: "\<exists>w'. addLinks_loop ''B'' [''A''] (addLinks_loop ''A'' [''B'']
          (addPages_loop [''A'', ''B'', ''C''] initial)) = (0, w')
        \<and> printConnection ''A'' ''A'' w' = Some (w'\<lparr>stdout := stdout w' @ [''1'']\<rparr>)
        \<and> printConnection ''A'' ''C'' w' = Some (w'\<lparr>stdout := stdout w' @ [''0'']\<rparr>)"
    by blast
  from h1 c0 c1 c2 h5 c3 show ?thesis by (intro conjI)
qed

end
